(* ===== verification/Prelude.thy ===== *)
theory Prelude
  imports Complex_Main
begin

text \<open>
  Shared vocabulary of the Zendo rule-engine model (src/js/zendo-prototype.js).
  \<^item> The random source: JavaScript's \<open>Math.random()\<close> is a global generator; the model
    threads it explicitly as a record \<open>rng\<close> holding a draw sequence and the number
    of draws consumed so far. \<open>rng_ok\<close> is the contract of \<open>Math.random()\<close>:
    every draw lies in \<open>[0, 1)\<close>.
  \<^item> JavaScript's short-circuit combinators under exceptions: \<open>Array.prototype.every\<close>,
    \<open>some\<close>, \<open>||\<close> and \<open>&&\<close> over callbacks that may throw a \<open>TypeError\<close>
    (modelled as \<open>None\<close>). Each stops at the first decisive element, so an exception
    in a later element is never raised.
  \<^item> The collection \<open>js_simps\<close> of evaluation facts shared by the component proofs.
\<close>

named_theorems js_simps "evaluation rules for the JavaScript combinators"
named_theorems js_total "introduction rules: a combinator whose parts do not throw does not throw"

section \<open>The random source\<close>

record rng =
  src :: "nat \<Rightarrow> real"
  pos :: nat

definition random :: "rng \<Rightarrow> real \<times> rng" where
  "random r = (src r (pos r), r\<lparr>pos := Suc (pos r)\<rparr>)"

definition rng_ok :: "rng \<Rightarrow> bool" where
  "rng_ok r \<longleftrightarrow> (\<forall>k. 0 \<le> src r k \<and> src r k < 1)"

text \<open>\<open>Math.floor(Math.random() * n)\<close>.\<close>

definition rand_below :: "nat \<Rightarrow> rng \<Rightarrow> nat \<times> rng" where
  "rand_below n r = (case random r of (x, r') \<Rightarrow> (nat \<lfloor>x * real n\<rfloor>, r'))"

text \<open>A source that draws the same value every time, for concrete runs.\<close>

definition const_rng :: "real \<Rightarrow> rng" where
  "const_rng x = \<lparr>src = \<lambda>_. x, pos = 0\<rparr>"

section \<open>Short-circuit combinators that may throw\<close>

fun every_m :: "('a \<Rightarrow> bool option) \<Rightarrow> 'a list \<Rightarrow> bool option" where
  "every_m p [] = Some True"
| "every_m p (x # xs) =
     (case p x of None \<Rightarrow> None | Some False \<Rightarrow> Some False | Some True \<Rightarrow> every_m p xs)"

fun some_m :: "('a \<Rightarrow> bool option) \<Rightarrow> 'a list \<Rightarrow> bool option" where
  "some_m p [] = Some False"
| "some_m p (x # xs) =
     (case p x of None \<Rightarrow> None | Some True \<Rightarrow> Some True | Some False \<Rightarrow> some_m p xs)"

definition or_m :: "bool option \<Rightarrow> bool option \<Rightarrow> bool option" where
  "or_m a b = (case a of None \<Rightarrow> None | Some True \<Rightarrow> Some True | Some False \<Rightarrow> b)"

definition and_m :: "bool option \<Rightarrow> bool option \<Rightarrow> bool option" where
  "and_m a b = (case a of None \<Rightarrow> None | Some False \<Rightarrow> Some False | Some True \<Rightarrow> b)"

text \<open>Assignment \<open>a[i] = v\<close> to an array of nullable values with a number index: a
  negative index names a property, not an element, and leaves the elements alone; an
  index at or past the end extends the array, the holes reading as \<open>undefined\<close>
  (loosely \<open>null\<close>).\<close>

definition js_array_set :: "'a option list \<Rightarrow> int \<Rightarrow> 'a option \<Rightarrow> 'a option list" where
  "js_array_set xs i v =
     (if i < 0 then xs
      else if nat i < length xs then xs[nat i := v]
      else xs @ replicate (nat i - length xs) None @ [v])"

section \<open>Lemmas on the random source\<close>

lemma random_src [simp]: "src (snd (random r)) = src r"
  by (simp add: random_def)

lemma random_pos [simp]: "pos (snd (random r)) = Suc (pos r)"
  by (simp add: random_def)

lemma rng_ok_random [simp]: "rng_ok (snd (random r)) = rng_ok r"
  by (simp add: rng_ok_def)

lemma random_range:
  "rng_ok r \<Longrightarrow> 0 \<le> fst (random r) \<and> fst (random r) < 1"
  by (simp add: rng_ok_def random_def)

lemma floor_draw_less:
  assumes "0 \<le> x" "x < 1" "0 < n"
  shows "nat \<lfloor>x * real n\<rfloor> < n"
proof -
  have "x * real n < real n" using assms by simp
  then have "\<lfloor>x * real n\<rfloor> < int n"
    by (simp add: floor_less_iff)
  then show ?thesis using assms(3) by linarith
qed

lemma rand_below_less:
  "rng_ok r \<Longrightarrow> 0 < n \<Longrightarrow> fst (rand_below n r) < n"
  using random_range [of r] floor_draw_less
  by (simp add: rand_below_def split: prod.splits) (metis fst_conv)

lemma rand_below_rng [simp]:
  "snd (rand_below n r) = snd (random r)"
  by (simp add: rand_below_def split: prod.splits)

lemma js_array_set_in [simp]:
  "0 \<le> i \<Longrightarrow> nat i < length xs \<Longrightarrow> js_array_set xs i v = xs[nat i := v]"
  by (simp add: js_array_set_def)

lemma rng_ok_const_rng [simp]: "rng_ok (const_rng x) \<longleftrightarrow> 0 \<le> x \<and> x < 1"
  by (simp add: rng_ok_def const_rng_def)

section \<open>Lemmas on nested recursion\<close>

text \<open>Termination of a recursion through the children paired with their slots.\<close>

lemma size_zip_child:
  "(c', s) \<in> set (zip cs kids) \<Longrightarrow> size (s :: 'a :: size) < Suc (size_list size kids)"
proof -
  assume "(c', s) \<in> set (zip cs kids)"
  then have "s \<in> set kids" by (rule set_zip_rightD)
  then have "size s \<le> size_list size kids" by (rule size_list_estimation') simp
  then show ?thesis by simp
qed

text \<open>Children paired with their slots, as \<open>list_all2\<close> and as a zip.\<close>

lemma list_all2_zip:
  "list_all2 P xs ys \<longleftrightarrow> length xs = length ys \<and> list_all (\<lambda>(x, y). P x y) (zip xs ys)"
  by (auto simp: list_all2_iff list_all_iff)

lemma list_all2_map_zip:
  "length cs = length xs \<Longrightarrow> (\<And>c x. (c, x) \<in> set (zip cs xs) \<Longrightarrow> P c (f x)) \<Longrightarrow>
   list_all2 P cs (map f xs)"
  by (auto simp: list_all2_iff zip_map2 set_zip_rightD)

section \<open>Lemmas on the combinators\<close>

lemma every_m_Some [js_simps]:
  "(\<And>x. x \<in> set xs \<Longrightarrow> p x = Some (q x)) \<Longrightarrow> every_m p xs = Some (list_all q xs)"
  by (induction xs) (auto split: bool.splits)

lemma some_m_Some [js_simps]:
  "(\<And>x. x \<in> set xs \<Longrightarrow> p x = Some (q x)) \<Longrightarrow> some_m p xs = Some (list_ex q xs)"
  by (induction xs) (auto split: bool.splits)

lemma or_m_Some [simp, js_simps]: "or_m (Some a) (Some b) = Some (a \<or> b)"
  by (simp add: or_m_def split: bool.splits)

lemma and_m_Some [simp, js_simps]: "and_m (Some a) (Some b) = Some (a \<and> b)"
  by (simp add: and_m_def split: bool.splits)

lemma or_m_True [simp]: "or_m (Some True) b = Some True"
  by (simp add: or_m_def)

lemma or_m_False [simp]: "or_m (Some False) b = b"
  by (simp add: or_m_def)

lemma and_m_True [simp]: "and_m (Some True) b = b"
  by (simp add: and_m_def)

lemma and_m_False [simp]: "and_m (Some False) b = Some False"
  by (simp add: and_m_def)

lemma every_m_total [js_total]:
  "(\<And>x. x \<in> set xs \<Longrightarrow> p x \<noteq> None) \<Longrightarrow> every_m p xs \<noteq> None"
  by (induction xs) (auto split: option.splits bool.splits)

lemma some_m_total [js_total]:
  "(\<And>x. x \<in> set xs \<Longrightarrow> p x \<noteq> None) \<Longrightarrow> some_m p xs \<noteq> None"
  by (induction xs) (auto split: option.splits bool.splits)

lemma or_m_total [js_total]: "a \<noteq> None \<Longrightarrow> b \<noteq> None \<Longrightarrow> or_m a b \<noteq> None"
  by (auto simp: or_m_def split: option.splits bool.splits)

lemma and_m_total [js_total]: "a \<noteq> None \<Longrightarrow> b \<noteq> None \<Longrightarrow> and_m a b \<noteq> None"
  by (auto simp: and_m_def split: option.splits bool.splits)

lemma map_option_total [js_total]: "a \<noteq> None \<Longrightarrow> map_option f a \<noteq> None"
  by simp

lemma Some_total [js_total]: "Some x \<noteq> None"
  by simp

lemma if_total [js_total]:
  "(b \<Longrightarrow> x \<noteq> None) \<Longrightarrow> (\<not> b \<Longrightarrow> y \<noteq> None) \<Longrightarrow> (if b then x else y) \<noteq> None"
  by simp

end
