(* ===== verification/Grid.thy ===== *)
theory Grid
  imports Prelude
begin

text \<open>
  Symbols and grids (src/js/zendo-prototype.js, the \<open>ZendoGrid\<close> typedef and the
  helpers \<open>indices\<close>, \<open>arrayCount\<close>, \<open>gridToString\<close>).
  A symbol is the object \<open>{color, shape}\<close>; a grid is a JavaScript array of cells,
  each \<open>null\<close> or a symbol. Reading \<open>g[i]\<close> past the end gives \<open>undefined\<close>,
  which is loosely equal to \<open>null\<close>; \<open>cell\<close> models the loose reading and
  \<open>not_strict_null\<close> the strict test \<open>g[i] !== null\<close>, true for \<open>undefined\<close>.
\<close>

record symbol =
  color :: nat
  shape :: nat

type_synonym grid = "symbol option list"

definition cell :: "grid \<Rightarrow> nat \<Rightarrow> symbol option" where
  "cell g i = (if i < length g then g ! i else None)"

definition not_strict_null :: "grid \<Rightarrow> nat \<Rightarrow> bool" where
  "not_strict_null g i \<longleftrightarrow> \<not> (i < length g \<and> g ! i = None)"

definition indices :: "'a list \<Rightarrow> nat list" where
  "indices a = [0..<length a]"

fun arrayCount_from :: "nat \<Rightarrow> 'a list \<Rightarrow> ('a \<Rightarrow> nat \<Rightarrow> bool option) \<Rightarrow> nat option" where
  "arrayCount_from i [] condition = Some 0"
| "arrayCount_from i (x # xs) condition =
     (case condition x i of
        None \<Rightarrow> None
      | Some b \<Rightarrow> map_option (\<lambda>n. if b then Suc n else n) (arrayCount_from (Suc i) xs condition))"

definition arrayCount :: "'a list \<Rightarrow> ('a \<Rightarrow> nat \<Rightarrow> bool option) \<Rightarrow> nat option" where
  "arrayCount a condition = arrayCount_from 0 a condition"

definition wf_grid :: "grid \<Rightarrow> bool" where
  "wf_grid g \<longleftrightarrow> length g = 9 \<and>
     list_all (\<lambda>e. case e of None \<Rightarrow> True | Some s \<Rightarrow> color s < 3 \<and> shape s < 3) g"

subsection \<open>The debug rendering\<close>

text \<open>\<open>"ryb"[k]\<close> is a one-character string, or \<open>undefined\<close> out of range, which
  string concatenation prints as the text \<open>undefined\<close>.\<close>

definition js_char_at :: "string \<Rightarrow> nat \<Rightarrow> string" where
  "js_char_at s k = (if k < length s then [s ! k] else ''undefined'')"

definition cell_string :: "symbol option \<Rightarrow> string" where
  "cell_string e = (case e of None \<Rightarrow> ''  ''
     | Some s \<Rightarrow> js_char_at ''ryb'' (color s) @ js_char_at ''CTS'' (shape s))"

definition row_separator :: string where
  "row_separator = [CHR 0x0A] @ ''--+--+--'' @ [CHR 0x0A]"

definition gridToString :: "grid \<Rightarrow> string" where
  "gridToString g = concat (map (\<lambda>(e, i). if i = 8 then e
       else e @ (if i mod 3 = 2 then row_separator else ''|''))
     (zip (map cell_string g) [0..<length g]))"

subsection \<open>Reading the rendering back\<close>

text \<open>A decoder for the debug rendering: cell \<open>i\<close> starts at character
  \<open>18 * row + 3 * column\<close> (two characters per cell, \<open>|\<close> between cells, a
  10-character separator between rows). It is not part of the program; it shows that
  \<open>gridToString\<close> loses no information.\<close>

fun char_index :: "string \<Rightarrow> char \<Rightarrow> nat" where
  "char_index [] c = 0"
| "char_index (x # xs) c = (if x = c then 0 else Suc (char_index xs c))"

definition decode_cell :: "char \<Rightarrow> char \<Rightarrow> symbol option" where
  "decode_cell a b = (if a = CHR '' '' then None
                      else Some \<lparr>color = char_index ''ryb'' a, shape = char_index ''CTS'' b\<rparr>)"

definition decode_grid :: "string \<Rightarrow> grid" where
  "decode_grid s = map (\<lambda>i. decode_cell (s ! (18 * (i div 3) + 3 * (i mod 3)))
                                        (s ! (18 * (i div 3) + 3 * (i mod 3) + 1))) [0..<9]"

definition cell_chars :: "symbol option \<Rightarrow> char \<times> char" where
  "cell_chars e = (cell_string e ! 0, cell_string e ! 1)"

section \<open>Lemmas\<close>

lemma cell_nth [simp]: "i < length g \<Longrightarrow> cell g i = g ! i"
  by (simp add: cell_def)

lemma cell_beyond [simp]: "length g \<le> i \<Longrightarrow> cell g i = None"
  by (simp add: cell_def)

lemma set_indices [simp]: "set (indices a) = {..<length a}"
  by (auto simp: indices_def)

lemma arrayCount_from_Some:
  "(\<And>x j. x \<in> set xs \<Longrightarrow> condition x j = Some (q x)) \<Longrightarrow>
   arrayCount_from i xs condition = Some (length (filter q xs))"
  by (induction xs arbitrary: i) auto

lemma arrayCount_Some [js_simps]:
  "(\<And>x j. x \<in> set xs \<Longrightarrow> condition x j = Some (q x)) \<Longrightarrow>
   arrayCount xs condition = Some (length (filter q xs))"
  unfolding arrayCount_def by (rule arrayCount_from_Some)

lemma arrayCount_from_total:
  "(\<And>x j. x \<in> set xs \<Longrightarrow> condition x j \<noteq> None) \<Longrightarrow> arrayCount_from i xs condition \<noteq> None"
  by (induction xs arbitrary: i) (auto split: option.splits)

lemma arrayCount_total [js_total]:
  "(\<And>x j. x \<in> set xs \<Longrightarrow> condition x j \<noteq> None) \<Longrightarrow> arrayCount xs condition \<noteq> None"
  unfolding arrayCount_def by (rule arrayCount_from_total)

lemma wf_grid_cell:
  "wf_grid g \<Longrightarrow> cell g i = Some s \<Longrightarrow> color s < 3 \<and> shape s < 3"
  by (auto simp: wf_grid_def cell_def list_all_length split: if_splits option.splits
           dest!: spec [of _ i])

lemma wf_grid_not_strict_null [simp]:
  "wf_grid g \<Longrightarrow> i < 9 \<Longrightarrow> not_strict_null g i \<longleftrightarrow> cell g i \<noteq> None"
  by (simp add: wf_grid_def not_strict_null_def cell_def)

lemma cell_string_decode:
  assumes "case e of None \<Rightarrow> True | Some s \<Rightarrow> color s < 3 \<and> shape s < 3"
  shows "cell_string e = [fst (cell_chars e), snd (cell_chars e)] \<and>
         decode_cell (fst (cell_chars e)) (snd (cell_chars e)) = e"
proof (cases e)
  case None
  then show ?thesis by (simp add: cell_chars_def cell_string_def decode_cell_def)
next
  case (Some s)
  with assms have "color s \<in> {0, 1, 2}" "shape s \<in> {0, 1, 2}" by auto
  with Some show ?thesis
    by (auto simp: cell_chars_def cell_string_def decode_cell_def js_char_at_def)
qed

lemma list9: "length g = 9 \<Longrightarrow> \<exists>a0 a1 a2 a3 a4 a5 a6 a7 a8. g = [a0, a1, a2, a3, a4, a5, a6, a7, a8]"
  by (auto simp: length_Suc_conv numeral_eq_Suc)

text \<open>C15: the debug rendering of a well-formed grid is 44 characters long and
  determines the grid: reading each cell's two characters back gives the grid.\<close>

theorem gridToString_roundtrip:
  assumes wf: "wf_grid g"
  shows "decode_grid (gridToString g) = g \<and> length (gridToString g) = 44"
proof -
  from wf have "length g = 9" by (simp add: wf_grid_def)
  from list9 [OF this] obtain a0 a1 a2 a3 a4 a5 a6 a7 a8 where
    g: "g = [a0, a1, a2, a3, a4, a5, a6, a7, a8]" by blast
  from wf show ?thesis
    by (simp add: g wf_grid_def gridToString_def decode_grid_def row_separator_def upt_rec
        cell_string_decode [THEN conjunct1] cell_string_decode [THEN conjunct2])
qed

theorem gridToString_roundtrip_witness:
  "decode_grid (gridToString (replicate 9 None)) = replicate 9 None \<and>
   length (gridToString (replicate 9 None)) = 44"
  by (rule gridToString_roundtrip) (simp add: wf_grid_def list_all_iff)

end
