(* ===== verification/Connect.thy ===== *)
theory Connect
  imports Prelude
begin

text \<open>
  The connectivity helper \<open>checkConnected\<close> (src/js/zendo-prototype.js, lines 809--832).
  The JavaScript keeps a mutable \<open>Set\<close> of targets and a recursive closure
  \<open>_floodFill\<close> that deletes the cell it visits and recurses into the four neighbours
  in the order up, down, left, right. The model passes the target set explicitly:
  \<open>floodFill\<close> returns the targets left over. The recursion is nested through the
  shrinking set, so it is given fuel; \<open>floodFill_enough\<close> shows that more fuel than
  targets always suffices, and \<open>checkConnected\<close> supplies that much.
  \<open>reach T i\<close> is the reference: the cells of \<open>T\<close> reachable from \<open>i\<close> by
  neighbour steps inside \<open>T\<close>; \<open>floodFill_reach\<close> shows the fill removes exactly them.
\<close>

fun floodFill :: "nat \<Rightarrow> nat \<Rightarrow> nat set \<Rightarrow> nat set option" where
  "floodFill 0 i targets = None"
| "floodFill (Suc n) i targets =
     (if i \<notin> targets then Some targets
      else
        Option.bind (if 2 < i then floodFill n (i - 3) (targets - {i}) else Some (targets - {i}))
          (\<lambda>t1. Option.bind (if i < 6 then floodFill n (i + 3) t1 else Some t1)
          (\<lambda>t2. Option.bind (if 0 < i mod 3 then floodFill n (i - 1) t2 else Some t2)
          (\<lambda>t3. if i mod 3 < 2 then floodFill n (i + 1) t3 else Some t3))))"

definition checkConnected :: "nat list \<Rightarrow> bool" where
  "checkConnected cells =
     (if cells = [] then True
      else (case floodFill (Suc (length cells)) (cells ! 0) (set cells) of
              None \<Rightarrow> False
            | Some targets \<Rightarrow> targets = {}))"

subsection \<open>Reference: reachability inside the target set\<close>

definition adjacent :: "nat \<Rightarrow> nat \<Rightarrow> bool" where
  "adjacent i j \<longleftrightarrow> (2 < i \<and> j = i - 3) \<or> (i < 6 \<and> j = i + 3) \<or>
                     (0 < i mod 3 \<and> j = i - 1) \<or> (i mod 3 < 2 \<and> j = i + 1)"

definition edges :: "nat set \<Rightarrow> (nat \<times> nat) set" where
  "edges T = {(a, b). a \<in> T \<and> b \<in> T \<and> adjacent a b}"

definition reach :: "nat set \<Rightarrow> nat \<Rightarrow> nat set" where
  "reach T i = (if i \<in> T then {j. (i, j) \<in> (edges T)\<^sup>*} else {})"

definition connected_spec :: "nat list \<Rightarrow> bool" where
  "connected_spec cells \<longleftrightarrow>
     cells = [] \<or> (\<forall>c \<in> set cells. (hd cells, c) \<in> (edges (set cells))\<^sup>*)"

definition closed_in :: "nat set \<Rightarrow> nat set \<Rightarrow> bool" where
  "closed_in X A \<longleftrightarrow> (\<forall>y z. y \<in> A \<longrightarrow> (y, z) \<in> edges X \<longrightarrow> z \<in> A)"

section \<open>Fuel\<close>

lemma floodFill_enough:
  "finite T \<Longrightarrow> card T < n \<Longrightarrow> \<exists>T'. floodFill n i T = Some T' \<and> T' \<subseteq> T"
proof (induction n arbitrary: i T)
  case 0
  then show ?case by simp
next
  case (Suc n)
  show ?case
  proof (cases "i \<in> T")
    case False
    then show ?thesis by simp
  next
    case True
    have step: "\<And>b j X. finite X \<Longrightarrow> X \<subseteq> T - {i} \<Longrightarrow>
        \<exists>X'. (if b then floodFill n j X else Some X) = Some X' \<and> X' \<subseteq> X"
    proof -
      fix b j X assume fin: "finite X" and sub: "X \<subseteq> T - {i}"
      then have "card X \<le> card (T - {i})" using Suc.prems(1) by (simp add: card_mono)
      also have "\<dots> < n"
      proof -
        have "0 < card T" using Suc.prems(1) True card_gt_0_iff by blast
        then show ?thesis using Suc.prems(2) True by (simp add: card_Diff_singleton)
      qed
      finally show "\<exists>X'. (if b then floodFill n j X else Some X) = Some X' \<and> X' \<subseteq> X"
        using Suc.IH [OF fin] by auto
    qed
    obtain t1 where t1: "(if 2 < i then floodFill n (i - 3) (T - {i}) else Some (T - {i})) = Some t1"
      "t1 \<subseteq> T - {i}"
      using step [of "T - {i}"] Suc.prems(1) by blast
    obtain t2 where t2: "(if i < 6 then floodFill n (i + 3) t1 else Some t1) = Some t2" "t2 \<subseteq> t1"
      using step [of t1] t1(2) Suc.prems(1) finite_subset by (metis finite_Diff)
    obtain t3 where t3: "(if 0 < i mod 3 then floodFill n (i - 1) t2 else Some t2) = Some t3" "t3 \<subseteq> t2"
      using step [of t2] t1(2) t2(2) Suc.prems(1) finite_subset by (metis finite_Diff order_trans)
    obtain t4 where t4: "(if i mod 3 < 2 then floodFill n (i + 1) t3 else Some t3) = Some t4" "t4 \<subseteq> t3"
      using step [of t3] t1(2) t2(2) t3(2) Suc.prems(1) finite_subset
      by (metis finite_Diff order_trans)
    have "floodFill (Suc n) i T = Some t4"
      using True t1(1) t2(1) t3(1) t4(1) by simp
    moreover have "t4 \<subseteq> T" using t1(2) t2(2) t3(2) t4(2) by blast
    ultimately show ?thesis by blast
  qed
qed

section \<open>The flood fill removes exactly the reachable cells\<close>

lemma edges_mono: "Y \<subseteq> X \<Longrightarrow> edges Y \<subseteq> edges X"
  by (auto simp: edges_def)

lemma edges_rtrancl_in:
  "(a, b) \<in> (edges X)\<^sup>* \<Longrightarrow> a \<in> X \<Longrightarrow> b \<in> X"
  by (induction rule: rtrancl_induct) (auto simp: edges_def)

lemma reach_subset: "reach X a \<subseteq> X"
  by (auto simp: reach_def dest: edges_rtrancl_in)

lemma reach_self: "a \<in> X \<Longrightarrow> a \<in> reach X a"
  by (simp add: reach_def)

lemma reach_closed:
  "y \<in> reach X a \<Longrightarrow> (y, z) \<in> edges X \<Longrightarrow> z \<in> reach X a"
  by (auto simp: reach_def split: if_splits intro: rtrancl_into_rtrancl)

lemma reach_avoiding:
  assumes closed: "\<And>y z. y \<in> A \<Longrightarrow> (y, z) \<in> edges X \<Longrightarrow> z \<in> A"
    and z: "z \<in> reach X b" "z \<notin> A"
  shows "z \<in> reach (X - A) b"
proof -
  from z(1) have b: "b \<in> X" and path: "(b, z) \<in> (edges X)\<^sup>*"
    by (auto simp: reach_def split: if_splits)
  have "z \<notin> A \<longrightarrow> b \<notin> A \<and> (b, z) \<in> (edges (X - A))\<^sup>*"
    using path
  proof (induction rule: rtrancl_induct)
    case base
    then show ?case by simp
  next
    case (step y z)
    show ?case
    proof
      assume "z \<notin> A"
      with step.hyps(2) closed have "y \<notin> A" by blast
      with step.IH have "b \<notin> A" "(b, y) \<in> (edges (X - A))\<^sup>*" by auto
      moreover have "(y, z) \<in> edges (X - A)"
        using step.hyps(2) \<open>y \<notin> A\<close> \<open>z \<notin> A\<close> by (auto simp: edges_def)
      ultimately show "b \<notin> A \<and> (b, z) \<in> (edges (X - A))\<^sup>*" by auto
    qed
  qed
  with z(2) b show ?thesis by (simp add: reach_def)
qed

lemma reach_mono: "Y \<subseteq> X \<Longrightarrow> reach Y b \<subseteq> reach X b"
  using rtrancl_mono [OF edges_mono] by (auto simp: reach_def)

text \<open>Removing a closed set first does not change what a later sweep removes.\<close>

lemma diff_reach_closed:
  assumes "\<And>y z. y \<in> A \<Longrightarrow> (y, z) \<in> edges X \<Longrightarrow> z \<in> A"
  shows "X - A - reach (X - A) b = X - (A \<union> reach X b)"
proof -
  have "reach (X - A) b \<subseteq> reach X b" by (rule reach_mono) blast
  moreover have "z \<in> reach (X - A) b" if "z \<in> reach X b" "z \<notin> A" for z
    by (rule reach_avoiding [OF _ that]) (fact assms)
  ultimately show ?thesis by blast
qed

lemma reach_unfold:
  assumes "i \<in> T"
  shows "reach T i = insert i (\<Union>j \<in> {j. adjacent i j}. reach (T - {i}) j)"
proof
  show "reach T i \<subseteq> insert i (\<Union>j \<in> {j. adjacent i j}. reach (T - {i}) j)"
  proof
    fix y assume "y \<in> reach T i"
    then have "(i, y) \<in> (edges T)\<^sup>*" by (simp add: reach_def split: if_splits)
    then show "y \<in> insert i (\<Union>j \<in> {j. adjacent i j}. reach (T - {i}) j)"
    proof (induction rule: rtrancl_induct)
      case base
      then show ?case by simp
    next
      case (step y z)
      show ?case
      proof (cases "z = i")
        case True
        then show ?thesis by simp
      next
        case False
        show ?thesis
        proof (cases "y = i")
          case True
          with step.hyps(2) False have "adjacent i z" "z \<in> T - {i}"
            by (auto simp: edges_def)
          moreover from \<open>z \<in> T - {i}\<close> have "z \<in> reach (T - {i}) z" by (rule reach_self)
          ultimately show ?thesis by blast
        next
          case yi: False
          with step.IH obtain j where j: "adjacent i j" "y \<in> reach (T - {i}) j" by auto
          have "(y, z) \<in> edges (T - {i})"
            using step.hyps(2) yi False by (auto simp: edges_def)
          with j(2) have "z \<in> reach (T - {i}) j" by (rule reach_closed)
          with j(1) show ?thesis by blast
        qed
      qed
    qed
  qed
next
  show "insert i (\<Union>j \<in> {j. adjacent i j}. reach (T - {i}) j) \<subseteq> reach T i"
  proof
    fix y assume "y \<in> insert i (\<Union>j \<in> {j. adjacent i j}. reach (T - {i}) j)"
    then consider "y = i" | j where "adjacent i j" "y \<in> reach (T - {i}) j" by blast
    then show "y \<in> reach T i"
    proof cases
      case 1
      with assms show ?thesis by (simp add: reach_self)
    next
      case 2
      then have j: "j \<in> T - {i}" "(j, y) \<in> (edges (T - {i}))\<^sup>*"
        by (auto simp: reach_def split: if_splits)
      then have "(j, y) \<in> (edges T)\<^sup>*"
        using rtrancl_mono [OF edges_mono [of "T - {i}" T]] by blast
      moreover have "(i, j) \<in> edges T" using assms j(1) 2(1) by (simp add: edges_def)
      ultimately show ?thesis using assms by (simp add: reach_def converse_rtrancl_into_rtrancl)
    qed
  qed
qed

lemma sweep_step:
  assumes cl: "closed_in X A"
    and r: "t = (if b then X - A - reach (X - A) j else X - A)"
  shows "t = X - (A \<union> (if b then reach X j else {})) \<and>
         closed_in X (A \<union> (if b then reach X j else {}))"
proof (cases b)
  case True
  have "X - A - reach (X - A) j = X - (A \<union> reach X j)"
    by (rule diff_reach_closed) (use cl in \<open>auto simp: closed_in_def\<close>)
  then show ?thesis
    using True cl r reach_closed by (auto simp: closed_in_def)
next
  case False
  with r cl show ?thesis by auto
qed

lemma adjacent_cases:
  "{j. adjacent i j} =
     (if 2 < i then {i - 3} else {}) \<union> (if i < 6 then {i + 3} else {}) \<union>
     (if 0 < i mod 3 then {i - 1} else {}) \<union> (if i mod 3 < 2 then {i + 1} else {})"
  by (auto simp: adjacent_def)

theorem floodFill_reach:
  "floodFill n i T = Some T' \<Longrightarrow> T' = T - reach T i"
proof (induction n arbitrary: i T T')
  case 0
  then show ?case by simp
next
  case (Suc n)
  show ?case
  proof (cases "i \<in> T")
    case False
    with Suc.prems show ?thesis by (simp add: reach_def)
  next
    case True
    let ?X = "T - {i}"
    let ?A1 = "if 2 < i then reach ?X (i - 3) else {}"
    let ?A2 = "if i < 6 then reach ?X (i + 3) else {}"
    let ?A3 = "if 0 < i mod 3 then reach ?X (i - 1) else {}"
    let ?A4 = "if i mod 3 < 2 then reach ?X (i + 1) else {}"
    from Suc.prems True obtain t1 t2 t3 where
      s1: "(if 2 < i then floodFill n (i - 3) ?X else Some ?X) = Some t1" and
      s2: "(if i < 6 then floodFill n (i + 3) t1 else Some t1) = Some t2" and
      s3: "(if 0 < i mod 3 then floodFill n (i - 1) t2 else Some t2) = Some t3" and
      s4: "(if i mod 3 < 2 then floodFill n (i + 1) t3 else Some t3) = Some T'"
      by (simp only: floodFill.simps True not_True_eq_False if_False bind_eq_Some_conv) blast
    have c0: "closed_in ?X {}" by (simp add: closed_in_def)
    have r1: "t1 = (if 2 < i then ?X - {} - reach (?X - {}) (i - 3) else ?X - {})"
      using s1 Suc.IH by (simp split: if_splits)
    have e1: "t1 = ?X - ({} \<union> ?A1)" "closed_in ?X ({} \<union> ?A1)"
      using sweep_step [OF c0 r1] by simp_all
    have r2: "t2 = (if i < 6 then ?X - ({} \<union> ?A1) - reach (?X - ({} \<union> ?A1)) (i + 3)
                   else ?X - ({} \<union> ?A1))"
      using s2 Suc.IH e1(1) by (simp split: if_splits)
    have e2: "t2 = ?X - ({} \<union> ?A1 \<union> ?A2)" "closed_in ?X ({} \<union> ?A1 \<union> ?A2)"
      using sweep_step [OF e1(2) r2] by simp_all
    have r3: "t3 = (if 0 < i mod 3 then ?X - ({} \<union> ?A1 \<union> ?A2)
                      - reach (?X - ({} \<union> ?A1 \<union> ?A2)) (i - 1)
                   else ?X - ({} \<union> ?A1 \<union> ?A2))"
      using s3 Suc.IH e2(1) by (simp split: if_splits)
    have e3: "t3 = ?X - ({} \<union> ?A1 \<union> ?A2 \<union> ?A3)" "closed_in ?X ({} \<union> ?A1 \<union> ?A2 \<union> ?A3)"
      using sweep_step [OF e2(2) r3] by simp_all
    have r4: "T' = (if i mod 3 < 2 then ?X - ({} \<union> ?A1 \<union> ?A2 \<union> ?A3)
                      - reach (?X - ({} \<union> ?A1 \<union> ?A2 \<union> ?A3)) (i + 1)
                   else ?X - ({} \<union> ?A1 \<union> ?A2 \<union> ?A3))"
      using s4 Suc.IH e3(1) by (simp split: if_splits)
    have e4: "T' = ?X - ({} \<union> ?A1 \<union> ?A2 \<union> ?A3 \<union> ?A4)"
      using sweep_step [OF e3(2) r4] by simp
    have "(\<Union>j \<in> {j. adjacent i j}. reach ?X j) = ?A1 \<union> ?A2 \<union> ?A3 \<union> ?A4"
      unfolding adjacent_cases by auto
    with reach_unfold [OF True] e4 show ?thesis by auto
  qed
qed

text \<open>C3: \<open>checkConnected\<close> decides connectivity: a list of cells is accepted exactly
  when it is empty or every cell of it is reachable from its first cell by steps between
  4-neighbours that stay inside the list.\<close>

theorem checkConnected_spec: "checkConnected cells = connected_spec cells"
proof (cases "cells = []")
  case True
  then show ?thesis by (simp add: checkConnected_def connected_spec_def)
next
  case False
  define c where "c = cells ! 0"
  have c: "c \<in> set cells" "hd cells = c"
    using False by (simp_all add: c_def hd_conv_nth)
  have "card (set cells) < Suc (length cells)"
    using card_length [of cells] by simp
  then obtain T' where T': "floodFill (Suc (length cells)) c (set cells) = Some T'"
    using floodFill_enough [of "set cells" _ c] by blast
  have chk: "checkConnected cells \<longleftrightarrow> T' = {}"
    using T' False by (simp add: checkConnected_def c_def del: floodFill.simps)
  have "T' = set cells - reach (set cells) c"
    using T' by (rule floodFill_reach)
  also have "reach (set cells) c = {j. (c, j) \<in> (edges (set cells))\<^sup>*}"
    using c(1) by (simp add: reach_def)
  finally have "T' = {} \<longleftrightarrow> (\<forall>x \<in> set cells. (c, x) \<in> (edges (set cells))\<^sup>*)"
    by blast
  with chk c(2) False show ?thesis by (simp add: connected_spec_def)
qed

text \<open>C18: the recursion of \<open>checkConnected\<close> always returns: the fuel it supplies (one
  more than the number of cells) is never exhausted, whatever the cells.\<close>

theorem checkConnected_terminates:
  "\<exists>T'. floodFill (Suc (length cells)) (cells ! 0) (set cells) = Some T' \<and> T' \<subseteq> set cells"
  using floodFill_enough [of "set cells" "Suc (length cells)" "cells ! 0"] card_length [of cells]
  by simp

end
