(* ===== verification/Grammar.thy ===== *)
theory Grammar
  imports Prelude
begin

text \<open>
  The grammar table \<open>ruleDict\<close> (src/js/zendo-prototype.js, lines 495--787).
  Each entry is a \<open>RuleTemplate\<close> object; every field is optional in the JavaScript
  (read with \<open>??\<close> or a truthiness test), so each field of the record is an option and
  an omitted field is \<open>None\<close>, as in \<open>no_template\<close>. The \<open>match\<close> lambdas are
  named by the constructors of one datatype per category; their meaning is \<open>rawMatch\<close>
  in theory Match. Categories and tags are the table's strings as datatypes.
  The lemmas show the table's shape: every category is non-empty, every entry has a
  \<open>match\<close> function of its own category, child categories have a strictly smaller
  \<open>rank\<close> (so generation recursing through \<open>childTypes\<close> stops), and the
  weights of the entries.
\<close>

datatype category = Rule | Noun | NounPred | Group | GroupPred

datatype tag = Color | Shape | Position

datatype rule_fn = EveryIs | SomeIs | NoIs | ForEachGroup | RowFilled | ColumnFilled

datatype noun_fn = NounColor | NounShape | NounRow | NounColumn | NounBlank

datatype pred_fn = PredColor | PredShape | PredRow | PredColumn | PredAdjacent

datatype group_fn = AllSymbols | SameRow | SameColumn | SameColorGroups | SameShapeGroups
  | IdenticalGroups | AdjacentPairs

datatype gpred_fn = SameColor | DifferentColors | SameShape | DifferentShapes
  | SameColorOrShape | Identical | Connected

datatype matcher = RuleM rule_fn | NounM noun_fn | PredM pred_fn | GroupM group_fn
  | GroupPredM gpred_fn

record template =
  childTypes :: "category list option"
  attribute :: "string list option"
  descSingular :: "string option"
  descPlural :: "string option"
  tags :: "tag list option"
  separateTags :: bool
  weight :: "nat option"
  match :: "matcher option"

definition no_template :: template where
  "no_template = \<lparr>childTypes = None, attribute = None, descSingular = None,
     descPlural = None, tags = None, separateTags = False, weight = None, match = None\<rparr>"

definition rule_templates :: "template list" where
  "rule_templates = [
     no_template\<lparr>childTypes := Some [Noun, NounPred], descSingular := Some ''Every %1 is %2'',
       weight := Some 7, match := Some (RuleM EveryIs)\<rparr>,
     no_template\<lparr>childTypes := Some [Noun, NounPred],
       descSingular := Some ''There is a %1 that is %2'',
       weight := Some 7, match := Some (RuleM SomeIs)\<rparr>,
     no_template\<lparr>childTypes := Some [Noun, NounPred], descSingular := Some ''No %1 is %2'',
       weight := Some 7, match := Some (RuleM NoIs)\<rparr>,
     no_template\<lparr>childTypes := Some [Group, GroupPred], descSingular := Some ''%1 %2'',
       weight := Some 20, match := Some (RuleM ForEachGroup)\<rparr>,
     no_template\<lparr>childTypes := Some [Noun], descSingular := Some ''There is a row filled with $1'',
       tags := Some [Position], weight := Some 7, match := Some (RuleM RowFilled)\<rparr>,
     no_template\<lparr>childTypes := Some [Noun],
       descSingular := Some ''There is a column filled with $1'',
       tags := Some [Position], weight := Some 7, match := Some (RuleM ColumnFilled)\<rparr>]"

definition noun_templates :: "template list" where
  "noun_templates = [
     no_template\<lparr>attribute := Some [''red'', ''yellow'', ''blue''],
       descSingular := Some ''@ symbol'', descPlural := Some ''@ symbols'',
       tags := Some [Color], weight := Some 20, match := Some (NounM NounColor)\<rparr>,
     no_template\<lparr>attribute := Some [''circle'', ''triangle'', ''square''],
       tags := Some [Shape], descSingular := Some ''@'', descPlural := Some ''@s'',
       weight := Some 20, match := Some (NounM NounShape)\<rparr>,
     no_template\<lparr>attribute := Some [''top'', ''middle'', ''bottom''],
       descSingular := Some ''symbol in the @ row'', descPlural := Some ''symbols in the @ row'',
       tags := Some [Position], weight := Some 20, match := Some (NounM NounRow)\<rparr>,
     no_template\<lparr>attribute := Some [''left'', ''middle'', ''right''],
       descSingular := Some ''symbol in the @ column'',
       descPlural := Some ''symbols in the @ column'',
       tags := Some [Position], weight := Some 20, match := Some (NounM NounColumn)\<rparr>,
     no_template\<lparr>descSingular := Some ''blank cell'', descPlural := Some ''blank cells'',
       tags := Some [Shape, Color], weight := Some 10, match := Some (NounM NounBlank)\<rparr>]"

definition nounPred_templates :: "template list" where
  "nounPred_templates = [
     no_template\<lparr>attribute := Some [''red'', ''yellow'', ''blue''], descSingular := Some ''@'',
       tags := Some [Color], weight := Some 10, match := Some (PredM PredColor)\<rparr>,
     no_template\<lparr>attribute := Some [''circle'', ''triangle'', ''square''],
       descSingular := Some ''a @'', descPlural := Some ''@s'',
       tags := Some [Shape], weight := Some 10, match := Some (PredM PredShape)\<rparr>,
     no_template\<lparr>attribute := Some [''top'', ''middle'', ''bottom''],
       descSingular := Some ''in the @ row'',
       tags := Some [Position], weight := Some 10, match := Some (PredM PredRow)\<rparr>,
     no_template\<lparr>attribute := Some [''left'', ''middle'', ''right''],
       descSingular := Some ''in the @ column'',
       tags := Some [Position], weight := Some 10, match := Some (PredM PredColumn)\<rparr>,
     no_template\<lparr>childTypes := Some [Noun], descSingular := Some ''adjacent to a %1'',
       tags := Some [Position], separateTags := True, weight := Some 15,
       match := Some (PredM PredAdjacent)\<rparr>]"

definition group_templates :: "template list" where
  "group_templates = [
     no_template\<lparr>descSingular := Some ''All symbols'', weight := Some 20,
       match := Some (GroupM AllSymbols)\<rparr>,
     no_template\<lparr>descSingular := Some ''Symbols in the same row'', tags := Some [Position],
       weight := Some 10, match := Some (GroupM SameRow)\<rparr>,
     no_template\<lparr>descSingular := Some ''Symbols in the same column'', tags := Some [Position],
       weight := Some 10, match := Some (GroupM SameColumn)\<rparr>,
     no_template\<lparr>descSingular := Some ''Symbols with the same color'', tags := Some [Color],
       weight := Some 10, match := Some (GroupM SameColorGroups)\<rparr>,
     no_template\<lparr>descSingular := Some ''Symbols with the same shape'', tags := Some [Shape],
       weight := Some 10, match := Some (GroupM SameShapeGroups)\<rparr>,
     no_template\<lparr>descSingular := Some ''Identical symbols'', tags := Some [Shape, Color],
       weight := Some 10, match := Some (GroupM IdenticalGroups)\<rparr>,
     no_template\<lparr>descSingular := Some ''Adjacent symbols'', tags := Some [Position],
       weight := Some 20, match := Some (GroupM AdjacentPairs)\<rparr>]"

definition groupPred_templates :: "template list" where
  "groupPred_templates = [
     no_template\<lparr>descSingular := Some ''are the same color'', tags := Some [Color],
       weight := Some 20, match := Some (GroupPredM SameColor)\<rparr>,
     no_template\<lparr>descSingular := Some ''are different colors'', tags := Some [Color],
       weight := Some 10, match := Some (GroupPredM DifferentColors)\<rparr>,
     no_template\<lparr>descSingular := Some ''are the same shape'', tags := Some [Shape],
       weight := Some 20, match := Some (GroupPredM SameShape)\<rparr>,
     no_template\<lparr>descSingular := Some ''are different shapes'', tags := Some [Shape],
       weight := Some 10, match := Some (GroupPredM DifferentShapes)\<rparr>,
     no_template\<lparr>descSingular := Some ''are the same color or shape'',
       tags := Some [Color, Shape], weight := Some 20,
       match := Some (GroupPredM SameColorOrShape)\<rparr>,
     no_template\<lparr>descSingular := Some ''are identical'', tags := Some [Color, Shape],
       weight := Some 0, match := Some (GroupPredM Identical)\<rparr>,
     no_template\<lparr>descSingular := Some ''form a connected cluster'', tags := Some [Position],
       weight := Some 20, match := Some (GroupPredM Connected)\<rparr>]"

fun ruleDict :: "category \<Rightarrow> template list" where
  "ruleDict Rule = rule_templates"
| "ruleDict Noun = noun_templates"
| "ruleDict NounPred = nounPred_templates"
| "ruleDict Group = group_templates"
| "ruleDict GroupPred = groupPred_templates"

subsection \<open>Views of the table\<close>

text \<open>The child slots and tags of an entry, an absent list read as empty (the code's
  \<open>if (choice.childTypes)\<close> and \<open>if (e.tags)\<close> skip the loops).\<close>

definition children_of :: "template \<Rightarrow> category list" where
  "children_of e = (case childTypes e of None \<Rightarrow> [] | Some cs \<Rightarrow> cs)"

definition tags_of :: "template \<Rightarrow> tag list" where
  "tags_of e = (case tags e of None \<Rightarrow> [] | Some ts \<Rightarrow> ts)"

text \<open>\<open>e.weight ?? 0\<close>.\<close>

definition weight_of :: "template \<Rightarrow> nat" where
  "weight_of e = (case weight e of None \<Rightarrow> 0 | Some w \<Rightarrow> w)"

fun matcher_category :: "matcher \<Rightarrow> category" where
  "matcher_category (RuleM _) = Rule"
| "matcher_category (NounM _) = Noun"
| "matcher_category (PredM _) = NounPred"
| "matcher_category (GroupM _) = Group"
| "matcher_category (GroupPredM _) = GroupPred"

fun rank :: "category \<Rightarrow> nat" where
  "rank Rule = 2"
| "rank NounPred = 1"
| "rank Noun = 0"
| "rank Group = 0"
| "rank GroupPred = 0"

lemmas table_defs = rule_templates_def noun_templates_def nounPred_templates_def
  group_templates_def groupPred_templates_def no_template_def

section \<open>Shape of the table\<close>

lemma ruleDict_nonempty: "ruleDict c \<noteq> []"
  by (cases c) (simp_all add: table_defs)

lemma ruleDict_matchers:
  "e \<in> set (ruleDict c) \<Longrightarrow> \<exists>m. match e = Some m \<and> matcher_category m = c"
  by (cases c) (auto simp: table_defs)

lemma ruleDict_children_rank:
  "e \<in> set (ruleDict c) \<Longrightarrow> c' \<in> set (children_of e) \<Longrightarrow> rank c' < rank c"
  by (cases c) (auto simp: table_defs children_of_def)

lemma ruleDict_childTypes_Some:
  "e \<in> set (ruleDict c) \<Longrightarrow> childTypes e = Some cs \<Longrightarrow> 0 < rank c \<and> cs \<noteq> []"
  by (cases c) (auto simp: table_defs)

lemma ruleDict_attribute_nonempty:
  "e \<in> set (ruleDict c) \<Longrightarrow> attribute e = Some attrs \<Longrightarrow> attrs \<noteq> []"
  by (cases c) (auto simp: table_defs)

end
