(* ===== verification/Match.thy ===== *)
theory Match
  imports Grid Connect Grammar
begin

text \<open>
  The evaluation functions of the grammar table: the \<open>match\<close> lambdas of
  \<open>ruleDict\<close> (src/js/zendo-prototype.js, lines 519--784), one function per category.
  A lambda receives the grid, its argument (\<open>undefined\<close>, a cell index or a group of
  cell indices: \<open>arg\<close>), the bound child evaluators and the attribute index. It
  returns a boolean or, for \<open>group\<close> entries, an array of groups (\<open>val\<close>).
  A \<open>TypeError\<close> (reading \<open>.color\<close> of \<open>null\<close>, calling a missing child,
  calling \<open>.every\<close> on a boolean) is \<open>None\<close>; the short-circuit order of
  \<open>every\<close>, \<open>some\<close>, \<open>||\<close> and \<open>&&\<close> is kept (Prelude), so only errors the
  code reaches are raised. Noun and predicate entries are only ever called with a cell
  index; the model makes any other argument an error.
  The lemmas give the value of each entry on well-typed arguments and show that
  evaluation never throws there (\<open>rawMatch_typed\<close>).
\<close>

datatype arg = Undef | Idx nat | Cells "nat list"

datatype val = VBool bool | VGroups "nat list list"

type_synonym child_fn = "arg \<Rightarrow> val option"

fun truthy :: "val \<Rightarrow> bool" where
  "truthy (VBool b) = b"
| "truthy (VGroups _) = True"

text \<open>\<open>child[k](x)\<close> used as a condition, and \<open>child[k]()\<close> used as an array.\<close>

definition call_bool :: "child_fn list \<Rightarrow> nat \<Rightarrow> arg \<Rightarrow> bool option" where
  "call_bool child k x = (if k < length child then map_option truthy ((child ! k) x) else None)"

definition call_groups :: "child_fn list \<Rightarrow> nat \<Rightarrow> arg \<Rightarrow> nat list list option" where
  "call_groups child k x =
     (if k < length child
      then (case (child ! k) x of Some (VGroups gs) \<Rightarrow> Some gs | _ \<Rightarrow> None)
      else None)"

text \<open>\<open>g[i].color\<close> and \<open>g[i].shape\<close>: a \<open>TypeError\<close> on an empty cell.\<close>

definition color_at :: "grid \<Rightarrow> nat \<Rightarrow> nat option" where
  "color_at g i = map_option color (cell g i)"

definition shape_at :: "grid \<Rightarrow> nat \<Rightarrow> nat option" where
  "shape_at g i = map_option shape (cell g i)"

fun rule_match :: "rule_fn \<Rightarrow> grid \<Rightarrow> child_fn list \<Rightarrow> bool option" where
  "rule_match EveryIs g child =
     every_m (\<lambda>i. or_m (map_option Not (call_bool child 0 (Idx i))) (call_bool child 1 (Idx i)))
       (indices g)"
| "rule_match SomeIs g child =
     some_m (\<lambda>i. and_m (call_bool child 0 (Idx i)) (call_bool child 1 (Idx i))) (indices g)"
| "rule_match NoIs g child =
     every_m (\<lambda>i. or_m (map_option Not (call_bool child 0 (Idx i)))
                       (map_option Not (call_bool child 1 (Idx i))))
       (indices g)"
| "rule_match ForEachGroup g child =
     (case call_groups child 0 Undef of
        None \<Rightarrow> None
      | Some gs \<Rightarrow> every_m (\<lambda>a. if length a = 0 then Some True else call_bool child 1 (Cells a)) gs)"
| "rule_match RowFilled g child =
     some_m (\<lambda>r. every_m (\<lambda>i. call_bool child 0 (Idx i)) [r + 0, r + 1, r + 2]) [0, 3, 6]"
| "rule_match ColumnFilled g child =
     some_m (\<lambda>c. every_m (\<lambda>i. call_bool child 0 (Idx i)) [c + 0, c + 3, c + 6]) [0, 1, 2]"

fun noun_match :: "noun_fn \<Rightarrow> grid \<Rightarrow> nat \<Rightarrow> nat \<Rightarrow> bool" where
  "noun_match NounColor g i attr = (case cell g i of None \<Rightarrow> False | Some s \<Rightarrow> color s = attr)"
| "noun_match NounShape g i attr = (case cell g i of None \<Rightarrow> False | Some s \<Rightarrow> shape s = attr)"
| "noun_match NounRow g i attr = (cell g i \<noteq> None \<and> i div 3 = attr)"
| "noun_match NounColumn g i attr = (cell g i \<noteq> None \<and> i mod 3 = attr)"
| "noun_match NounBlank g i attr = (cell g i = None)"

fun pred_match :: "pred_fn \<Rightarrow> grid \<Rightarrow> nat \<Rightarrow> child_fn list \<Rightarrow> nat \<Rightarrow> bool option" where
  "pred_match PredColor g i child attr =
     Some (case cell g i of None \<Rightarrow> False | Some s \<Rightarrow> color s = attr)"
| "pred_match PredShape g i child attr =
     Some (case cell g i of None \<Rightarrow> False | Some s \<Rightarrow> shape s = attr)"
| "pred_match PredRow g i child attr = Some (i div 3 = attr)"
| "pred_match PredColumn g i child attr = Some (i mod 3 = attr)"
| "pred_match PredAdjacent g i child attr =
     or_m (if 2 < i then call_bool child 0 (Idx (i - 3)) else Some False)
      (or_m (if i < 6 then call_bool child 0 (Idx (i + 3)) else Some False)
       (or_m (if 0 < i mod 3 then call_bool child 0 (Idx (i - 1)) else Some False)
             (if i mod 3 < 2 then call_bool child 0 (Idx (i + 1)) else Some False)))"

definition adjacent_pairs :: "nat list list" where
  "adjacent_pairs = [[0, 1], [1, 2], [3, 4], [4, 5], [6, 7], [7, 8],
                     [0, 3], [3, 6], [1, 4], [4, 7], [2, 5], [5, 8]]"

fun group_match :: "group_fn \<Rightarrow> grid \<Rightarrow> nat list list" where
  "group_match AllSymbols g = [filter (\<lambda>i. cell g i \<noteq> None) (indices g)]"
| "group_match SameRow g = map (\<lambda>r. filter (not_strict_null g) [r + 0, r + 1, r + 2]) [0, 3, 6]"
| "group_match SameColumn g = map (\<lambda>r. filter (not_strict_null g) [r + 0, r + 3, r + 6]) [0, 1, 2]"
| "group_match SameColorGroups g =
     map (\<lambda>c. filter (\<lambda>i. case cell g i of None \<Rightarrow> False | Some s \<Rightarrow> color s = c) (indices g))
       [0, 1, 2]"
| "group_match SameShapeGroups g =
     map (\<lambda>s. filter (\<lambda>i. case cell g i of None \<Rightarrow> False | Some x \<Rightarrow> shape x = s) (indices g))
       [0, 1, 2]"
| "group_match IdenticalGroups g =
     map (\<lambda>v. filter (\<lambda>i. case cell g i of None \<Rightarrow> False
                         | Some s \<Rightarrow> shape s = v div 3 \<and> color s = v mod 3) (indices g))
       [0, 1, 2, 3, 4, 5, 6, 7, 8]"
| "group_match AdjacentPairs g =
     filter (\<lambda>p. cell g (p ! 0) \<noteq> None \<and> cell g (p ! 1) \<noteq> None) adjacent_pairs"

definition all_same_color :: "grid \<Rightarrow> nat list \<Rightarrow> bool option" where
  "all_same_color g a = some_m (\<lambda>c. every_m (\<lambda>i. map_option (\<lambda>x. x = c) (color_at g i)) a) [0, 1, 2]"

definition all_same_shape :: "grid \<Rightarrow> nat list \<Rightarrow> bool option" where
  "all_same_shape g a = some_m (\<lambda>s. every_m (\<lambda>i. map_option (\<lambda>x. x = s) (shape_at g i)) a) [0, 1, 2]"

fun gpred_match :: "gpred_fn \<Rightarrow> grid \<Rightarrow> nat list \<Rightarrow> bool option" where
  "gpred_match SameColor g a = all_same_color g a"
| "gpred_match DifferentColors g a =
     every_m (\<lambda>c. map_option (\<lambda>n. n \<le> 1)
                   (arrayCount a (\<lambda>i _. map_option (\<lambda>x. x = c) (color_at g i)))) [0, 1, 2]"
| "gpred_match SameShape g a = all_same_shape g a"
| "gpred_match DifferentShapes g a =
     every_m (\<lambda>s. map_option (\<lambda>n. n \<le> 1)
                   (arrayCount a (\<lambda>i _. map_option (\<lambda>x. x = s) (shape_at g i)))) [0, 1, 2]"
| "gpred_match SameColorOrShape g a = or_m (all_same_color g a) (all_same_shape g a)"
| "gpred_match Identical g a = and_m (all_same_color g a) (all_same_shape g a)"
| "gpred_match Connected g a = Some (checkConnected a)"

fun rawMatch :: "matcher \<Rightarrow> grid \<Rightarrow> arg \<Rightarrow> child_fn list \<Rightarrow> nat \<Rightarrow> val option" where
  "rawMatch (RuleM f) g x child attr = map_option VBool (rule_match f g child)"
| "rawMatch (NounM f) g x child attr =
     (case x of Idx i \<Rightarrow> Some (VBool (noun_match f g i attr)) | _ \<Rightarrow> None)"
| "rawMatch (PredM f) g x child attr =
     (case x of Idx i \<Rightarrow> map_option VBool (pred_match f g i child attr) | _ \<Rightarrow> None)"
| "rawMatch (GroupM f) g x child attr = Some (VGroups (group_match f g))"
| "rawMatch (GroupPredM f) g x child attr =
     (case x of Cells a \<Rightarrow> map_option VBool (gpred_match f g a) | _ \<Rightarrow> None)"

subsection \<open>Typing\<close>

text \<open>The children each evaluation function calls, in slot order; the table gives
  every entry exactly these (\<open>ruleDict_children_matcher\<close>).\<close>

fun matcher_children :: "matcher \<Rightarrow> category list" where
  "matcher_children (RuleM f) =
     (case f of ForEachGroup \<Rightarrow> [Group, GroupPred] | RowFilled \<Rightarrow> [Noun]
      | ColumnFilled \<Rightarrow> [Noun] | _ \<Rightarrow> [Noun, NounPred])"
| "matcher_children (PredM f) = (case f of PredAdjacent \<Rightarrow> [Noun] | _ \<Rightarrow> [])"
| "matcher_children _ = []"

definition occupied :: "grid \<Rightarrow> nat list \<Rightarrow> bool" where
  "occupied g a \<longleftrightarrow> list_all (\<lambda>i. cell g i \<noteq> None) a"

fun arg_ok :: "category \<Rightarrow> grid \<Rightarrow> arg \<Rightarrow> bool" where
  "arg_ok Rule g x = True"
| "arg_ok Noun g x = (case x of Idx i \<Rightarrow> True | _ \<Rightarrow> False)"
| "arg_ok NounPred g x = (case x of Idx i \<Rightarrow> True | _ \<Rightarrow> False)"
| "arg_ok Group g x = True"
| "arg_ok GroupPred g x = (case x of Cells a \<Rightarrow> occupied g a | _ \<Rightarrow> False)"

fun val_ok :: "category \<Rightarrow> grid \<Rightarrow> val \<Rightarrow> bool" where
  "val_ok Group g v = (case v of VGroups gs \<Rightarrow> list_all (occupied g) gs | _ \<Rightarrow> False)"
| "val_ok c g v = (case v of VBool b \<Rightarrow> True | _ \<Rightarrow> False)"

definition fn_ok :: "grid \<Rightarrow> category \<Rightarrow> child_fn \<Rightarrow> bool" where
  "fn_ok g c f \<longleftrightarrow> (\<forall>x. arg_ok c g x \<longrightarrow> (\<exists>v. f x = Some v \<and> val_ok c g v))"

section \<open>Lemmas\<close>

lemma ruleDict_children_matcher:
  "e \<in> set (ruleDict c) \<Longrightarrow> match e = Some m \<Longrightarrow> children_of e = matcher_children m"
  by (cases c) (auto simp: table_defs children_of_def)

lemma call_bool_total:
  "k < length child \<Longrightarrow> fn_ok g c (child ! k) \<Longrightarrow> arg_ok c g x \<Longrightarrow>
   call_bool child k x \<noteq> None"
  by (auto simp: call_bool_def fn_ok_def)

lemma call_groups_ok:
  assumes k: "k < length child" and ok: "fn_ok g Group (child ! k)"
  shows "\<exists>gs. call_groups child k x = Some gs \<and> list_all (occupied g) gs"
proof -
  obtain v where v: "(child ! k) x = Some v" "val_ok Group g v"
    using ok by (auto simp: fn_ok_def)
  then show ?thesis using k by (cases v) (auto simp: call_groups_def)
qed

lemma occupied_filter [simp]: "occupied g (filter (\<lambda>i. \<exists>y. cell g i = Some y) xs)"
  by (auto simp: occupied_def list_all_iff)

lemma occupied_filter_case [simp]:
  "occupied g (filter (\<lambda>i. case cell g i of None \<Rightarrow> False | Some s \<Rightarrow> P s) xs)"
  by (auto simp: occupied_def list_all_iff split: option.splits)

lemma occupied_filter_strict:
  "length g = 9 \<Longrightarrow> list_all (\<lambda>i. i < 9) xs \<Longrightarrow> occupied g (filter (not_strict_null g) xs)"
  by (auto simp: occupied_def list_all_iff not_strict_null_def cell_def)

lemma adjacent_pairs_shape: "p \<in> set adjacent_pairs \<Longrightarrow> p = [p ! 0, p ! 1]"
  by (auto simp: adjacent_pairs_def)

lemma group_match_ok:
  assumes len: "length g = 9"
  shows "list_all (occupied g) (group_match f g)"
proof (cases f)
  case SameRow
  with len show ?thesis by (simp add: occupied_filter_strict del: filter.simps)
next
  case SameColumn
  with len show ?thesis by (simp add: occupied_filter_strict del: filter.simps)
next
  case AdjacentPairs
  have "occupied g p" if "p \<in> set adjacent_pairs" "cell g (p ! 0) \<noteq> None" "cell g (p ! 1) \<noteq> None" for p
  proof -
    have "occupied g [p ! 0, p ! 1]" using that(2,3) by (simp add: occupied_def)
    with adjacent_pairs_shape [OF that(1)] show ?thesis by simp
  qed
  with AdjacentPairs show ?thesis by (simp add: list_all_iff)
qed simp_all

lemma rule_match_total:
  assumes ch: "list_all2 (fn_ok g) (matcher_children (RuleM f)) child"
  shows "rule_match f g child \<noteq> None"
proof (cases "f \<in> {EveryIs, SomeIs, NoIs}")
  case True
  with ch obtain f0 f1 where c: "child = [f0, f1]" "fn_ok g Noun f0" "fn_ok g NounPred f1"
    by (cases f) (auto simp: list_all2_Cons1)
  have h0: "call_bool child 0 (Idx i) \<noteq> None" and h1: "call_bool child 1 (Idx i) \<noteq> None" for i
    using call_bool_total [of 0 child g Noun "Idx i"] call_bool_total [of 1 child g NounPred "Idx i"] c
    by simp_all
  from True consider "f = EveryIs" | "f = SomeIs" | "f = NoIs" by blast
  then show ?thesis
  proof cases
    case 1
    then show ?thesis by (simp only: rule_match.simps) (intro js_total h0 h1)
  next
    case 2
    then show ?thesis by (simp only: rule_match.simps) (intro js_total h0 h1)
  next
    case 3
    then show ?thesis by (simp only: rule_match.simps) (intro js_total h0 h1)
  qed
next
  case False
  show ?thesis
  proof (cases f)
    case ForEachGroup
    with ch obtain f0 f1 where c: "child = [f0, f1]" "fn_ok g Group f0" "fn_ok g GroupPred f1"
      by (auto simp: list_all2_Cons1)
    then obtain gs where gs: "call_groups child 0 Undef = Some gs" "list_all (occupied g) gs"
      using call_groups_ok [of 0 child g Undef] by auto
    have "every_m (\<lambda>a. if length a = 0 then Some True else call_bool child 1 (Cells a)) gs \<noteq> None"
    proof (rule every_m_total)
      fix a assume "a \<in> set gs"
      with gs(2) have "arg_ok GroupPred g (Cells a)" by (simp add: list_all_iff)
      then have cb: "call_bool child 1 (Cells a) \<noteq> None"
        using call_bool_total [of 1 child g GroupPred] c by simp
      show "(if length a = 0 then Some True else call_bool child 1 (Cells a)) \<noteq> None"
        by (intro js_total cb)
    qed
    with ForEachGroup gs(1) show ?thesis by simp
  next
    case RowFilled
    with ch obtain f0 where c: "child = [f0]" "fn_ok g Noun f0"
      by (auto simp: list_all2_Cons1)
    have h0: "call_bool child 0 (Idx i) \<noteq> None" for i
      using call_bool_total [of 0 child g Noun "Idx i"] c by simp
    from RowFilled show ?thesis by (simp only: rule_match.simps) (intro js_total h0)
  next
    case ColumnFilled
    with ch obtain f0 where c: "child = [f0]" "fn_ok g Noun f0"
      by (auto simp: list_all2_Cons1)
    have h0: "call_bool child 0 (Idx i) \<noteq> None" for i
      using call_bool_total [of 0 child g Noun "Idx i"] c by simp
    from ColumnFilled show ?thesis by (simp only: rule_match.simps) (intro js_total h0)
  qed (use False in simp_all)
qed

lemma pred_match_total:
  assumes ch: "list_all2 (fn_ok g) (matcher_children (PredM f)) child"
  shows "pred_match f g i child attr \<noteq> None"
proof (cases f)
  case PredAdjacent
  with ch obtain f0 where c: "child = [f0]" "fn_ok g Noun f0"
    by (auto simp: list_all2_Cons1)
  have h0: "call_bool child 0 (Idx j) \<noteq> None" for j
    using call_bool_total [of 0 child g Noun "Idx j"] c by simp
  from PredAdjacent show ?thesis by (simp only: pred_match.simps) (intro js_total h0)
qed simp_all

lemma gpred_match_total:
  assumes "occupied g a"
  shows "gpred_match f g a \<noteq> None"
proof -
  have col: "color_at g i \<noteq> None" and shp: "shape_at g i \<noteq> None" if "i \<in> set a" for i
    using assms that by (auto simp: occupied_def list_all_iff color_at_def shape_at_def)
  have sc: "all_same_color g a \<noteq> None" and ss: "all_same_shape g a \<noteq> None"
    unfolding all_same_color_def all_same_shape_def by (intro js_total col shp; assumption)+
  show ?thesis
    by (cases f) (simp_all only: gpred_match.simps; intro js_total sc ss col shp; assumption)+
qed

theorem rawMatch_typed:
  assumes ch: "list_all2 (fn_ok g) (matcher_children m) child"
    and len: "length g = 9"
    and x: "arg_ok (matcher_category m) g x"
  shows "\<exists>v. rawMatch m g x child a = Some v \<and> val_ok (matcher_category m) g v"
proof (cases m)
  case (RuleM f)
  with ch obtain b where "rule_match f g child = Some b"
    using rule_match_total [of g f child] by auto
  with RuleM show ?thesis by simp
next
  case (NounM f)
  with x show ?thesis by (auto split: arg.splits)
next
  case (PredM f)
  with x obtain i where i: "x = Idx i" by (cases x) auto
  from PredM ch obtain b where "pred_match f g i child a = Some b"
    using pred_match_total [of g f child i a] by auto
  with PredM i show ?thesis by simp
next
  case (GroupM f)
  with group_match_ok [OF len] show ?thesis by simp
next
  case (GroupPredM f)
  with x obtain c where c: "x = Cells c" "occupied g c" by (cases x) auto
  then obtain b where "gpred_match f g c = Some b"
    using gpred_match_total [of g c f] by auto
  with GroupPredM c show ?thesis by simp
qed

end
