(* ===== verification/Generator.thy ===== *)
theory Generator
  imports Grammar
begin

text \<open>
  The weighted fragment generator \<open>randomRuleFragmentOfType\<close>
  (src/js/zendo-prototype.js, lines 361--445).
  \<^item> \<open>pick_loop\<close> is the selection loop (lines 368--397): entries whose tags meet the
    active tags, and entries with no \<open>match\<close>, are skipped without a draw; every other
    entry draws \<open>Math.random()\<close>, and becomes the tentative choice when
    \<open>rand * newWeight > weight\<close>.
  \<^item> \<open>gen\<close> is one call: no choice throws \<open>No valid choices\<close> (\<open>NoValidChoices\<close>);
    otherwise the choice's tags are added to the active set, the children are generated
    in slot order, and the attribute index is drawn last.
  \<^item> \<open>gen_children\<close> is the loop over \<open>childTypes\<close> (lines 420--438). The JavaScript
    passes one mutable \<open>Set\<close>: a child adds its tags to it and the next sibling and the
    caller see them. The model returns the set. Under \<open>separateTags\<close> each child gets a
    fresh set holding \<open>position\<close> iff the parent's set (already holding the parent's own
    tags) does, and the parent's set is unchanged by the children.
  The random source is threaded through every draw in the code's order. The recursion
  terminates because child categories have a smaller \<open>rank\<close> (Grammar).
\<close>

datatype skel = Skel (stype: category) (sindex: nat) (schildren: "skel list") (sattr: nat)

datatype error = NoValidChoices category | TemplateNotFound

definition conflicts :: "template \<Rightarrow> tag set \<Rightarrow> bool" where
  "conflicts e ts \<longleftrightarrow> (case tags e of None \<Rightarrow> False | Some l \<Rightarrow> list_ex (\<lambda>t. t \<in> ts) l)"

fun pick_loop :: "tag set \<Rightarrow> nat \<Rightarrow> template list \<Rightarrow> (nat \<times> template) option \<Rightarrow> real \<Rightarrow> rng
                  \<Rightarrow> (nat \<times> template) option \<times> rng" where
  "pick_loop ts i [] choice w r = (choice, r)"
| "pick_loop ts i (e # es) choice w r =
     (if conflicts e ts then pick_loop ts (Suc i) es choice w r
      else if match e = None then pick_loop ts (Suc i) es choice w r
      else (let newWeight = w + real (weight_of e) in
            case random r of
              (x, r') \<Rightarrow>
                if x * newWeight > w then pick_loop ts (Suc i) es (Some (i, e)) newWeight r'
                else pick_loop ts (Suc i) es choice newWeight r'))"

fun rank_bound :: "category list \<Rightarrow> nat" where
  "rank_bound [] = 0"
| "rank_bound (c # cs) = max (Suc (rank c)) (rank_bound cs)"

lemma pick_loop_Cons:
  "\<exists>ch' w' r'. (ch' = ch \<or> ch' = Some (i, e)) \<and>
     pick_loop ts i (e # es) ch w r = pick_loop ts (Suc i) es ch' w' r'"
proof (cases "conflicts e ts \<or> match e = None")
  case True
  then have "pick_loop ts i (e # es) ch w r = pick_loop ts (Suc i) es ch w r" by auto
  then show ?thesis by (intro exI [of _ ch] exI [of _ w] exI [of _ r]) simp
next
  case False
  obtain x r1 where rr: "random r = (x, r1)" by (cases "random r") auto
  define nw where "nw = w + real (weight_of e)"
  have "pick_loop ts i (e # es) ch w r =
        pick_loop ts (Suc i) es (if x * nw > w then Some (i, e) else ch) nw r1"
    using False rr by (auto simp: nw_def Let_def)
  then show ?thesis
    by (intro exI [of _ "if x * nw > w then Some (i, e) else ch"] exI [of _ nw] exI [of _ r1]) simp
qed

lemma pick_loop_member:
  "pick_loop ts i es ch w r = (Some (k, e), r') \<Longrightarrow>
   ch = Some (k, e) \<or> (i \<le> k \<and> k - i < length es \<and> es ! (k - i) = e)"
proof (induction es arbitrary: i ch w r)
  case Nil
  then show ?case by simp
next
  case (Cons e' es)
  obtain ch' w' r'' where ch': "ch' = ch \<or> ch' = Some (i, e')"
    and eq: "pick_loop ts i (e' # es) ch w r = pick_loop ts (Suc i) es ch' w' r''"
    using pick_loop_Cons [where ch = ch and i = i and e = e' and ts = ts and es = es and w = w and r = r]
    by (elim exE conjE)
  from Cons.prems have "pick_loop ts (Suc i) es ch' w' r'' = (Some (k, e), r')"
    by (simp only: eq)
  then have "ch' = Some (k, e) \<or> (Suc i \<le> k \<and> k - Suc i < length es \<and> es ! (k - Suc i) = e)"
    by (rule Cons.IH)
  then show ?case
  proof
    assume "ch' = Some (k, e)"
    with ch' show ?thesis by (auto simp del: nth_Cons)
  next
    assume idx: "Suc i \<le> k \<and> k - Suc i < length es \<and> es ! (k - Suc i) = e"
    have kk: "k - i = Suc (k - Suc i)" using idx by arith
    have "(e' # es) ! (k - i) = es ! (k - Suc i)" by (simp only: kk nth_Cons_Suc)
    moreover have "k - i < length (e' # es)" using idx by (simp only: length_Cons) arith
    moreover have "i \<le> k" using idx by arith
    ultimately show ?thesis using idx by auto
  qed
qed

lemma rank_bound_le: "list_all (\<lambda>c. rank c < n) cs \<Longrightarrow> rank_bound cs \<le> n"
  by (induction cs) auto

lemma pick_children_rank:
  "pick_loop ts 0 (ruleDict c) None w r = (Some (k, e), r') \<Longrightarrow>
   rank_bound (children_of e) < Suc (rank c)"
proof -
  assume "pick_loop ts 0 (ruleDict c) None w r = (Some (k, e), r')"
  then have "k < length (ruleDict c) \<and> ruleDict c ! k = e"
    using pick_loop_member [of ts 0 "ruleDict c" None w r k e r'] by simp
  then have "e \<in> set (ruleDict c)" using nth_mem by blast
  then have "list_all (\<lambda>c'. rank c' < rank c) (children_of e)"
    using ruleDict_children_rank by (simp add: list_all_iff)
  then have "rank_bound (children_of e) \<le> rank c" by (rule rank_bound_le)
  then show ?thesis by simp
qed

text \<open>The tag set a child starts from (lines 425--433): under \<open>separateTags\<close> a
  fresh set holding \<open>position\<close> iff the parent's set does, otherwise the parent's
  set itself.\<close>

definition child_tags :: "bool \<Rightarrow> tag set \<Rightarrow> tag set" where
  "child_tags sep ts = (if sep then (if Position \<in> ts then {Position} else {}) else ts)"

function gen :: "category \<Rightarrow> tag set \<Rightarrow> rng \<Rightarrow> error + (skel \<times> tag set \<times> rng)"
  and gen_children :: "bool \<Rightarrow> category list \<Rightarrow> tag set \<Rightarrow> rng
                         \<Rightarrow> error + (skel list \<times> tag set \<times> rng)" where
  "gen fragType ts r =
     (case pick_loop ts 0 (ruleDict fragType) None 0 r of
        (None, r1) \<Rightarrow> Inl (NoValidChoices fragType)
      | (Some (k, e), r1) \<Rightarrow>
          (case gen_children (separateTags e) (children_of e) (ts \<union> set (tags_of e)) r1 of
             Inl err \<Rightarrow> Inl err
           | Inr (kids, ts2, r2) \<Rightarrow>
               (case attribute e of
                  None \<Rightarrow> Inr (Skel fragType k kids 0, ts2, r2)
                | Some attrs \<Rightarrow>
                    (case rand_below (length attrs) r2 of
                       (a, r3) \<Rightarrow> Inr (Skel fragType k kids a, ts2, r3)))))"
| "gen_children sep [] ts r = Inr ([], ts, r)"
| "gen_children sep (c # cs) ts r =
     (case gen c (child_tags sep ts) r of
        Inl err \<Rightarrow> Inl err
      | Inr (k, ts1, r1) \<Rightarrow>
          (case gen_children sep cs (if sep then ts else ts1) r1 of
             Inl err \<Rightarrow> Inl err
           | Inr (ks, ts2, r2) \<Rightarrow> Inr (k # ks, ts2, r2)))"
  by pat_completeness auto

termination
  apply (relation "measures
    [\<lambda>x. case x of Inl (c, _, _) \<Rightarrow> Suc (rank c) | Inr (_, cs, _, _) \<Rightarrow> rank_bound cs,
     \<lambda>x. case x of Inl _ \<Rightarrow> 0 | Inr (_, cs, _, _) \<Rightarrow> Suc (length cs)]")
  by (auto simp: max_def dest: pick_children_rank [OF sym])

text \<open>A skeleton is well formed for a category when it names an entry of that
  category's table that has a \<open>match\<close> function, its children fill the entry's
  child slots in order and are well formed for the slots' categories, and its
  attribute index lies inside the entry's attribute list (0 when there is none).\<close>

function skel_ok :: "category \<Rightarrow> skel \<Rightarrow> bool" where
  "skel_ok c (Skel ty k kids a) =
     (ty = c \<and> k < length (ruleDict c) \<and> match (ruleDict c ! k) \<noteq> None \<and>
      length kids = length (children_of (ruleDict c ! k)) \<and>
      list_all (\<lambda>(c', s). skel_ok c' s) (zip (children_of (ruleDict c ! k)) kids) \<and>
      (case attribute (ruleDict c ! k) of None \<Rightarrow> a = 0 | Some attrs \<Rightarrow> a < length attrs))"
  by pat_completeness auto
termination
  by (relation "measure (\<lambda>(c :: category, s :: skel). size s)") (auto dest: size_zip_child)

section \<open>Lemmas\<close>

lemma gen_Inr_cases:
  assumes "gen c ts r = Inr (sk, ts', r')"
  shows "\<exists>k e r1 kids r2.
    pick_loop ts 0 (ruleDict c) None 0 r = (Some (k, e), r1) \<and>
    gen_children (separateTags e) (children_of e) (ts \<union> set (tags_of e)) r1 = Inr (kids, ts', r2) \<and>
    (attribute e = None \<longrightarrow> sk = Skel c k kids 0 \<and> r' = r2) \<and>
    (\<forall>attrs. attribute e = Some attrs \<longrightarrow>
       (\<exists>a. rand_below (length attrs) r2 = (a, r') \<and> sk = Skel c k kids a))"
proof -
  obtain x r1 where p: "pick_loop ts 0 (ruleDict c) None 0 r = (x, r1)"
    by (cases "pick_loop ts 0 (ruleDict c) None 0 r") auto
  with assms obtain k e where x: "x = Some (k, e)"
    by (cases x) (auto simp: gen.simps [of c ts r])
  obtain res where res: "gen_children (separateTags e) (children_of e) (ts \<union> set (tags_of e)) r1 = res"
    by simp
  with assms p x obtain kids r2 where kids: "res = Inr (kids, ts', r2)"
    by (cases res) (auto simp: gen.simps [of c ts r] split: option.splits prod.splits)
  have A: "attribute e = None \<longrightarrow> sk = Skel c k kids 0 \<and> r' = r2"
    using assms p x res kids by (auto simp: gen.simps [of c ts r])
  have B: "\<forall>attrs. attribute e = Some attrs \<longrightarrow>
       (\<exists>a. rand_below (length attrs) r2 = (a, r') \<and> sk = Skel c k kids a)"
    using assms p x res kids by (auto simp: gen.simps [of c ts r] split: prod.splits)
  have p': "pick_loop ts 0 (ruleDict c) None 0 r = (Some (k, e), r1)" using p x by simp
  have g': "gen_children (separateTags e) (children_of e) (ts \<union> set (tags_of e)) r1 = Inr (kids, ts', r2)"
    using res kids by simp
  show ?thesis
    by (intro exI [of _ k] exI [of _ e] exI [of _ r1] exI [of _ kids] exI [of _ r2] conjI p' g' A B)
qed

lemma gen_children_Cons_InrE:
  assumes "gen_children sep (c # cs) ts r = Inr (ks, ts', r')"
  obtains k ts1 r1 ks' where
    "gen c (child_tags sep ts) r = Inr (k, ts1, r1)"
    "gen_children sep cs (if sep then ts else ts1) r1 = Inr (ks', ts', r')"
    "ks = k # ks'"
  using assms by (auto split: sum.splits prod.splits)

lemma pick_loop_step:
  assumes ok: "rng_ok r" and w: "0 \<le> w"
  shows "\<exists>ch' w' r'. pick_loop ts i (e # es) ch w r = pick_loop ts (Suc i) es ch' w' r' \<and>
     rng_ok r' \<and> 0 \<le> w' \<and>
     (ch' = ch \<or> (ch' = Some (i, e) \<and> \<not> conflicts e ts \<and> match e \<noteq> None \<and> 0 < weight_of e))"
proof (cases "conflicts e ts \<or> match e = None")
  case True
  then have "pick_loop ts i (e # es) ch w r = pick_loop ts (Suc i) es ch w r" by auto
  with ok w show ?thesis by (intro exI [of _ ch] exI [of _ w] exI [of _ r]) simp
next
  case False
  obtain x r1 where rr: "random r = (x, r1)" by (cases "random r") auto
  have x: "0 \<le> x" "x < 1" using random_range [OF ok] rr by simp_all
  have ok1: "rng_ok r1" using ok rr rng_ok_random [of r] by simp
  define nw where "nw = w + real (weight_of e)"
  have eq: "pick_loop ts i (e # es) ch w r =
        pick_loop ts (Suc i) es (if x * nw > w then Some (i, e) else ch) nw r1"
    using False rr by (auto simp: nw_def Let_def)
  have pos: "0 < weight_of e" if "x * nw > w"
  proof (rule ccontr)
    assume "\<not> 0 < weight_of e"
    then have "nw = w" by (simp add: nw_def)
    with x w have "x * nw \<le> w" using mult_left_le_one_le [of w x] by simp
    with that show False by simp
  qed
  have "0 \<le> nw" using w by (simp add: nw_def)
  with eq ok1 pos False show ?thesis
    by (intro exI [of _ "if x * nw > w then Some (i, e) else ch"] exI [of _ nw] exI [of _ r1]) auto
qed

lemma pick_loop_sound:
  "rng_ok r \<Longrightarrow> 0 \<le> w \<Longrightarrow> pick_loop ts i es ch w r = (ch2, r2) \<Longrightarrow>
   rng_ok r2 \<and>
   (ch2 = ch \<or> (\<exists>k e. ch2 = Some (k, e) \<and> i \<le> k \<and> k - i < length es \<and> es ! (k - i) = e \<and>
      \<not> conflicts e ts \<and> match e \<noteq> None \<and> 0 < weight_of e))"
proof (induction es arbitrary: i ch w r)
  case Nil
  then show ?case by simp
next
  case (Cons e' es)
  obtain ch' w' r' where eq: "pick_loop ts i (e' # es) ch w r = pick_loop ts (Suc i) es ch' w' r'"
    and ok': "rng_ok r'" "0 \<le> w'"
    and ch': "ch' = ch \<or> (ch' = Some (i, e') \<and> \<not> conflicts e' ts \<and> match e' \<noteq> None \<and> 0 < weight_of e')"
    using pick_loop_step [OF Cons.prems(1,2), where ts = ts and i = i and e = e' and es = es and ch = ch]
    by (elim exE conjE)
  from Cons.prems(3) have "pick_loop ts (Suc i) es ch' w' r' = (ch2, r2)" by (simp only: eq)
  from Cons.IH [OF ok' this]
  have ih: "rng_ok r2 \<and> (ch2 = ch' \<or> (\<exists>k e. ch2 = Some (k, e) \<and> Suc i \<le> k \<and> k - Suc i < length es \<and>
      es ! (k - Suc i) = e \<and> \<not> conflicts e ts \<and> match e \<noteq> None \<and> 0 < weight_of e))" .
  show ?case
  proof (cases "ch2 = ch'")
    case True
    with ch' ih show ?thesis by auto
  next
    case False
    with ih obtain k e where ke: "ch2 = Some (k, e)" "Suc i \<le> k" "k - Suc i < length es"
      "es ! (k - Suc i) = e" "\<not> conflicts e ts" "match e \<noteq> None" "0 < weight_of e" by blast
    have kk: "k - i = Suc (k - Suc i)" using ke(2) by arith
    have "(e' # es) ! (k - i) = e" by (simp only: kk nth_Cons_Suc ke(4))
    moreover have "k - i < length (e' # es)" using ke(3) kk by simp
    moreover have "i \<le> k" using ke(2) by arith
    ultimately show ?thesis using ih ke(1,5,6,7) by blast
  qed
qed

lemma gen_skel_ok:
  "gen c ts r = Inr (sk, ts', r') \<Longrightarrow> rng_ok r \<Longrightarrow> skel_ok c sk \<and> rng_ok r'"
  "gen_children sep cs ts r = Inr (ks, ts', r') \<Longrightarrow> rng_ok r \<Longrightarrow>
     list_all2 skel_ok cs ks \<and> rng_ok r'"
proof (induction c ts r and sep cs ts r arbitrary: sk ts' r' and ks ts' r'
       rule: gen_gen_children.induct)
  case (1 c ts r)
  obtain k e r1 kids r2 where
    p: "pick_loop ts 0 (ruleDict c) None 0 r = (Some (k, e), r1)" and
    g: "gen_children (separateTags e) (children_of e) (ts \<union> set (tags_of e)) r1 = Inr (kids, ts', r2)" and
    n: "attribute e = None \<longrightarrow> sk = Skel c k kids 0 \<and> r' = r2" and
    s: "\<forall>attrs. attribute e = Some attrs \<longrightarrow> (\<exists>a. rand_below (length attrs) r2 = (a, r') \<and> sk = Skel c k kids a)"
    using gen_Inr_cases [OF "1.prems"(1)] by auto
  from pick_loop_sound [OF "1.prems"(2) _ p]
  have ok1: "rng_ok r1" and ke: "k < length (ruleDict c)" "ruleDict c ! k = e" "match e \<noteq> None"
    by auto
  from "1.IH" [OF p [symmetric] refl refl g ok1]
  have kids: "list_all2 skel_ok (children_of e) kids" and ok2: "rng_ok r2" by auto
  have kids': "length kids = length (children_of e) \<and> list_all (\<lambda>(c', s). skel_ok c' s) (zip (children_of e) kids)"
    using kids by (auto simp: list_all2_iff list_all_iff)
  show ?case
  proof (cases "attribute e")
    case None
    with n ke kids' ok2 show ?thesis by auto
  next
    case (Some attrs)
    with s obtain a where a: "rand_below (length attrs) r2 = (a, r')" "sk = Skel c k kids a" by blast
    have "attrs \<noteq> []" using ruleDict_attribute_nonempty [OF _ Some] ke(1,2) nth_mem by blast
    then have "a < length attrs" using rand_below_less [OF ok2, of "length attrs"] a(1) by simp
    moreover have "rng_ok r'" using ok2 a(1) rand_below_rng [of "length attrs" r2] by simp
    ultimately show ?thesis using a(2) Some ke kids' by auto
  qed
next
  case (2 sep ts r)
  then show ?case by simp
next
  case (3 sep c cs ts r)
  from "3.prems"(1) obtain k ts1 r1 ks' where
    g: "gen c (child_tags sep ts) r = Inr (k, ts1, r1)" and
    gs: "gen_children sep cs (if sep then ts else ts1) r1 = Inr (ks', ts', r')" and
    ks: "ks = k # ks'"
    by (rule gen_children_Cons_InrE)
  from "3.IH"(1) [OF g "3.prems"(2)] have k: "skel_ok c k" and ok1: "rng_ok r1" by auto
  from "3.IH"(2) [OF g refl refl gs ok1] ks k show ?case by simp
qed

text \<open>Generation throws only \<open>No valid choices\<close>: the instantiator's error never
  arises here.\<close>

lemma gen_error:
  "gen c ts r = Inl err \<Longrightarrow> \<exists>c'. err = NoValidChoices c'"
  "gen_children sep cs ts r = Inl err \<Longrightarrow> \<exists>c'. err = NoValidChoices c'"
proof (induction c ts r and sep cs ts r arbitrary: err and err rule: gen_gen_children.induct)
  case (1 c ts r)
  obtain x r1 where p: "pick_loop ts 0 (ruleDict c) None 0 r = (x, r1)" by fastforce
  show ?case
  proof (cases x)
    case None
    with p "1.prems" show ?thesis by auto
  next
    case (Some ke)
    obtain k e where ke: "ke = (k, e)" by fastforce
    with p Some "1.prems"
    have "gen_children (separateTags e) (children_of e) (ts \<union> set (tags_of e)) r1 = Inl err"
      by (auto split: sum.splits prod.splits option.splits)
    with "1.IH" [OF p [symmetric] Some ke [symmetric]] show ?thesis by blast
  qed
next
  case (2 sep ts r)
  then show ?case by simp
next
  case (3 sep c cs ts r)
  then show ?case by (auto split: sum.splits prod.splits)
qed

section \<open>Generation can fail on legal draws\<close>

text \<open>The selection loop with a zero draw: \<open>0 * newWeight > weight\<close> fails for every
  non-negative weight, so an entry is never chosen.\<close>

lemma pick_loop_zero_draws:
  "\<forall>n\<ge>pos r. src r n = 0 \<Longrightarrow> 0 \<le> w \<Longrightarrow> fst (pick_loop ts i es None w r) = None"
proof (induction es arbitrary: i w r)
  case Nil
  then show ?case by simp
next
  case (Cons e es)
  have z: "src r (pos r) = 0" and z': "\<forall>n\<ge>pos (r\<lparr>pos := Suc (pos r)\<rparr>). src r n = 0"
    using Cons.prems(1) by auto
  have "0 \<le> w + real (weight_of e)" using Cons.prems(2) by simp
  then show ?case
    using Cons.IH [of "r\<lparr>pos := Suc (pos r)\<rparr>"] Cons.IH [of r] z z' Cons.prems
    by (auto simp: random_def Let_def)
qed

text \<open>C7: \<open>Math.random()\<close> may return 0. When every draw from the current position on
  is 0, the strict test \<open>rand * newWeight > weight\<close> never holds, not even for the
  first eligible entry (\<open>0 > 0\<close>), so generating a fragment of any category throws
  \<open>No valid choices\<close> whatever tags are active, although every category has entries
  eligible from the empty tag set.\<close>

theorem gen_zero_draws_fail:
  assumes "\<forall>n\<ge>pos r. src r n = 0"
  shows "gen c ts r = Inl (NoValidChoices c)"
proof -
  have "fst (pick_loop ts 0 (ruleDict c) None 0 r) = None"
    using pick_loop_zero_draws [OF assms] by simp
  then show ?thesis by (simp add: split_beta)
qed

theorem gen_zero_draws_fail_witness:
  "gen Rule {} (const_rng 0) = Inl (NoValidChoices Rule)"
  using gen_zero_draws_fail [of "const_rng 0" Rule "{}"] by (simp add: const_rng_def)

end
