(* ===== verification/Instantiate.thy ===== *)
theory Instantiate
  imports Match Generator
begin

text \<open>
  The rule instantiator (src/js/zendo-prototype.js, lines 447--493).
  \<^item> \<open>js_replace s pat rep\<close> is \<open>s.replace(pat, rep)\<close> with a string pattern: the
    first occurrence only. (JavaScript also reads \<open>$\<close>-patterns in the replacement
    text; no replacement text that arises contains \<open>$\<close>, \<open>instantiate_dollar_free\<close>.)
  \<^item> \<open>instantiateRule\<close> looks the template up (\<open>Rule template not found\<close> past the
    end of the table), instantiates the skeleton's children in order, and after each
    child \<open>i\<close> replaces \<open>%(i+1)\<close> and then \<open>$(i+1)\<close> in both descriptions, the
    singular by the child's singular text, the plural by its plural text; finally it
    replaces \<open>@\<close> by the attribute's text (\<open>undefined\<close> past the end of the list).
  \<^item> \<open>imatch\<close> is the bound closure \<open>result.match(g, x)\<close>: the entry's evaluation
    function applied to the children's closures, each bound to the same grid; a
    template without \<open>match\<close> evaluates to \<open>true\<close>.
  \<^item> \<open>randomRule\<close> generates a rule skeleton from an empty tag set and instantiates it.
\<close>

datatype inst = Inst (idescS: string) (idescP: string) (irawMatch: "matcher option")
  (ichildren: "inst list") (iattr: nat)

fun find_split :: "string \<Rightarrow> string \<Rightarrow> (string \<times> string) option" where
  "find_split pat [] = (if pat = [] then Some ([], []) else None)"
| "find_split pat (c # cs) =
     (if take (length pat) (c # cs) = pat then Some ([], drop (length pat) (c # cs))
      else map_option (\<lambda>(a, b). (c # a, b)) (find_split pat cs))"

definition js_replace :: "string \<Rightarrow> string \<Rightarrow> string \<Rightarrow> string" where
  "js_replace s pat rep = (case find_split pat s of None \<Rightarrow> s | Some (pre, post) \<Rightarrow> pre @ rep @ post)"

text \<open>\<open>String(n)\<close> for the slot numbers.\<close>

fun decimal :: "nat \<Rightarrow> string" where
  "decimal n = (if n < 10 then [''0123456789'' ! n]
                else decimal (n div 10) @ [''0123456789'' ! (n mod 10)])"

declare decimal.simps [simp del]

definition js_index_str :: "string list \<Rightarrow> nat \<Rightarrow> string" where
  "js_index_str xs k = (if k < length xs then xs ! k else ''undefined'')"

fun instantiateRule :: "skel \<Rightarrow> error + inst"
  and inst_children :: "nat \<Rightarrow> skel list \<Rightarrow> string \<Rightarrow> string \<Rightarrow> error + (inst list \<times> string \<times> string)"
where
  "instantiateRule (Skel ty k kids a) =
     (if length (ruleDict ty) \<le> k then Inl TemplateNotFound
      else
        (let template = ruleDict ty ! k;
             ds = (case descSingular template of None \<Rightarrow> '''' | Some d \<Rightarrow> d);
             dp = (case descPlural template of None \<Rightarrow> ds | Some d \<Rightarrow> d)
         in case (if childTypes template = None then Inr ([], ds, dp) else inst_children 0 kids ds dp) of
              Inl err \<Rightarrow> Inl err
            | Inr (children, ds1, dp1) \<Rightarrow>
                (case attribute template of
                   None \<Rightarrow> Inr (Inst ds1 dp1 (match template) children a)
                 | Some attrs \<Rightarrow>
                     Inr (Inst (js_replace ds1 ''@'' (js_index_str attrs a))
                               (js_replace dp1 ''@'' (js_index_str attrs a))
                               (match template) children a))))"
| "inst_children i [] ds dp = Inr ([], ds, dp)"
| "inst_children i (c # cs) ds dp =
     (case instantiateRule c of
        Inl err \<Rightarrow> Inl err
      | Inr child \<Rightarrow>
          (let n = decimal (Suc i);
               ds1 = js_replace ds (''%'' @ n) (idescS child);
               dp1 = js_replace dp (''%'' @ n) (idescS child);
               ds2 = js_replace ds1 (''$'' @ n) (idescP child);
               dp2 = js_replace dp1 (''$'' @ n) (idescP child)
           in case inst_children (Suc i) cs ds2 dp2 of
                Inl err \<Rightarrow> Inl err
              | Inr (children, d) \<Rightarrow> Inr (child # children, d)))"

fun imatch :: "inst \<Rightarrow> grid \<Rightarrow> arg \<Rightarrow> val option" where
  "imatch (Inst ds dp rm cs a) g x =
     (case rm of None \<Rightarrow> Some (VBool True)
      | Some m \<Rightarrow> rawMatch m g x (map (\<lambda>c. imatch c g) cs) a)"

definition randomRule :: "rng \<Rightarrow> error + (inst \<times> rng)" where
  "randomRule r =
     (case gen Rule {} r of
        Inl err \<Rightarrow> Inl err
      | Inr (sk, _, r') \<Rightarrow>
          (case instantiateRule sk of Inl err \<Rightarrow> Inl err | Inr rule \<Rightarrow> Inr (rule, r')))"

text \<open>An instantiated rule is well typed for a category when it carries a \<open>match\<close>
  function of that category and its children fill that function's child slots, each
  well typed for its slot.\<close>

function inst_ok :: "category \<Rightarrow> inst \<Rightarrow> bool" where
  "inst_ok c (Inst ds dp rm cs a) =
     (case rm of None \<Rightarrow> False
      | Some m \<Rightarrow> matcher_category m = c \<and> length cs = length (matcher_children m) \<and>
                  list_all (\<lambda>(c', i). inst_ok c' i) (zip (matcher_children m) cs))"
  by pat_completeness auto
termination
  by (relation "measure (\<lambda>(c :: category, i :: inst). size i)") (auto dest: size_zip_child)

text \<open>Text free of \<open>$\<close>: a replacement text without \<open>$\<close> makes JavaScript's
  \<open>String.prototype.replace\<close> insert it literally, as \<open>js_replace\<close> does.\<close>

definition dollar_free :: "string \<Rightarrow> bool" where
  "dollar_free s \<longleftrightarrow> CHR ''$'' \<notin> set s"

definition desc_free :: "inst \<Rightarrow> bool" where
  "desc_free ch \<longleftrightarrow> dollar_free (idescS ch) \<and> dollar_free (idescP ch)"

text \<open>The attribute texts of the colour and shape entries, in table order.\<close>

definition color_names :: "string list" where
  "color_names = [''red'', ''yellow'', ''blue'']"

definition shape_names :: "string list" where
  "shape_names = [''circle'', ''triangle'', ''square'']"

section \<open>Lemmas\<close>

text \<open>Instantiating a well-formed skeleton (every generated one is, \<open>gen_skel_ok\<close>)
  never throws \<open>Rule template not found\<close> and gives a well-typed rule.\<close>

lemma instantiate_ok:
  "skel_ok c sk \<Longrightarrow> \<exists>it. instantiateRule sk = Inr it \<and> inst_ok c it"
  "\<forall>cs. list_all2 skel_ok cs kids \<longrightarrow>
     (\<exists>its d. inst_children i kids ds dp = Inr (its, d) \<and> list_all2 inst_ok cs its)"
proof (induction sk and i kids ds dp arbitrary: c rule: instantiateRule_inst_children.induct)
  case (1 ty k kids a)
  then have ty: "ty = c" and k: "k < length (ruleDict c)"
    and kids: "list_all2 skel_ok (children_of (ruleDict c ! k)) kids"
    by (auto simp: list_all2_zip)
  define e where "e = ruleDict c ! k"
  have e: "e \<in> set (ruleDict c)" using k by (simp add: e_def)
  then obtain m where m: "match e = Some m" "matcher_category m = c"
    using ruleDict_matchers [OF e] by (elim exE conjE)
  have mc: "children_of e = matcher_children m" using ruleDict_children_matcher [OF e m(1)] .
  let ?ds = "case descSingular e of None \<Rightarrow> '''' | Some d \<Rightarrow> d"
  let ?dp = "case descPlural e of None \<Rightarrow> ?ds | Some d \<Rightarrow> d"
  obtain its ds1 dp1 where ch: "(if childTypes e = None then Inr ([], ?ds, ?dp) else inst_children 0 kids ?ds ?dp)
      = Inr (its, ds1, dp1)" and its: "list_all2 inst_ok (children_of e) its"
  proof (cases "childTypes e = None")
    case True
    then have "kids = []" using kids by (simp add: children_of_def e_def)
    with True that show ?thesis by (simp add: children_of_def)
  next
    case False
    have IH: "\<forall>cs. list_all2 skel_ok cs kids \<longrightarrow>
        (\<exists>its d. inst_children 0 kids ?ds ?dp = Inr (its, d) \<and> list_all2 inst_ok cs its)"
      using "1.IH" [OF _ refl refl refl] k False unfolding e_def ty by simp
    obtain its d where "inst_children 0 kids ?ds ?dp = Inr (its, d)" "list_all2 inst_ok (children_of e) its"
      using IH [rule_format, OF kids [folded e_def]] by (elim exE conjE)
    with False that show ?thesis by (cases d) auto
  qed
  have ok: "inst_ok c (Inst x y (match e) its a)" for x y
    using m mc its by (simp add: list_all2_zip)
  show ?case
    using ty k ch ok by (auto simp: e_def Let_def split: option.splits)
next
  case (2 i ds dp)
  then show ?case by simp
next
  case (3 i c kids ds dp)
  show ?case
  proof (intro allI impI)
    fix cs assume "list_all2 skel_ok cs (c # kids)"
    then obtain c0 cs' where cs: "cs = c0 # cs'" "skel_ok c0 c" "list_all2 skel_ok cs' kids"
      by (auto simp: list_all2_Cons2)
    from "3.IH"(1) [OF cs(2)] obtain child where child: "instantiateRule c = Inr child" "inst_ok c0 child"
      by blast
    from "3.IH"(2) [OF child(1) refl refl refl refl refl, rule_format, OF cs(3)] obtain its d where
      "inst_children (Suc i) kids
         (js_replace (js_replace ds (''%'' @ decimal (Suc i)) (idescS child)) (''$'' @ decimal (Suc i)) (idescP child))
         (js_replace (js_replace dp (''%'' @ decimal (Suc i)) (idescS child)) (''$'' @ decimal (Suc i)) (idescP child))
       = Inr (its, d)" "list_all2 inst_ok cs' its"
      by (elim exE conjE)
    with child cs show "\<exists>its d. inst_children i (c # kids) ds dp = Inr (its, d) \<and> list_all2 inst_ok cs its"
      by (auto simp: Let_def)
  qed
qed

text \<open>The substitutions insert only \<open>$\<close>-free text: the descriptions of the
  non-rule templates and the attribute names contain no \<open>$\<close>, \<open>js_replace\<close> keeps
  text \<open>$\<close>-free, and no child slot has the category \<open>rule\<close>.\<close>

lemma find_split_Some: "find_split pat s = Some (pre, post) \<Longrightarrow> s = pre @ pat @ post"
proof (induction pat s arbitrary: pre rule: find_split.induct)
  case (1 pat)
  then show ?case by (simp split: if_splits)
next
  case (2 pat c cs)
  show ?case
  proof (cases "take (length pat) (c # cs) = pat")
    case True
    with "2.prems" have "pre = []" "post = drop (length pat) (c # cs)" by auto
    with True show ?thesis by (metis append_Nil append_take_drop_id)
  next
    case False
    with "2.prems" obtain pre' where "find_split pat cs = Some (pre', post)" "pre = c # pre'" by auto
    with "2.IH" [OF False] show ?thesis by simp
  qed
qed

lemma js_replace_set: "set (js_replace s pat rep) \<subseteq> set s \<union> set rep"
proof (cases "find_split pat s")
  case (Some pp)
  obtain pre post where pp: "pp = (pre, post)" by fastforce
  with Some find_split_Some [of pat s pre post] show ?thesis by (auto simp: js_replace_def)
qed (simp add: js_replace_def)

lemma js_replace_dollar_free [simp]:
  "dollar_free s \<Longrightarrow> dollar_free rep \<Longrightarrow> dollar_free (js_replace s pat rep)"
  using js_replace_set [of s pat rep] by (auto simp: dollar_free_def)

lemma table_dollar_free:
  "c \<noteq> Rule \<Longrightarrow> e \<in> set (ruleDict c) \<Longrightarrow> dollar_free (case descSingular e of None \<Rightarrow> [] | Some d \<Rightarrow> d)"
  "c \<noteq> Rule \<Longrightarrow> e \<in> set (ruleDict c) \<Longrightarrow> descPlural e = Some d \<Longrightarrow> dollar_free d"
  "e \<in> set (ruleDict c) \<Longrightarrow> attribute e = Some attrs \<Longrightarrow> k < length attrs \<Longrightarrow> dollar_free (attrs ! k)"
  by (cases c; auto simp: table_defs dollar_free_def nth_Cons' split: if_splits)+

lemma desc_free_Inst: "desc_free (Inst s p m cs a) \<longleftrightarrow> dollar_free s \<and> dollar_free p"
  by (simp add: desc_free_def)

lemma children_not_Rule:
  "e \<in> set (ruleDict c) \<Longrightarrow> Rule \<notin> set (children_of e)"
  using ruleDict_children_rank [of e c Rule] by (cases c) auto

lemma instantiate_dollar_free:
  "skel_ok c sk \<Longrightarrow> instantiateRule sk = Inr it \<Longrightarrow>
     list_all desc_free (ichildren it) \<and> (c \<noteq> Rule \<longrightarrow> desc_free it)"
  "list_all2 skel_ok cs kids \<Longrightarrow> Rule \<notin> set cs \<Longrightarrow> inst_children i kids ds dp = Inr (its, ds', dp') \<Longrightarrow>
     list_all desc_free its \<and> (dollar_free ds \<longrightarrow> dollar_free dp \<longrightarrow> dollar_free ds' \<and> dollar_free dp')"
proof (induction sk and i kids ds dp arbitrary: c it and cs its ds' dp'
       rule: instantiateRule_inst_children.induct)
  case (1 ty k kids a)
  from "1.prems"(1) have ty: "ty = c" and k: "k < length (ruleDict c)"
    and kids: "list_all2 skel_ok (children_of (ruleDict c ! k)) kids"
    and attr: "case attribute (ruleDict c ! k) of None \<Rightarrow> a = 0 | Some attrs \<Rightarrow> a < length attrs"
    by (auto simp: list_all2_zip)
  define e where "e = ruleDict c ! k"
  have e: "e \<in> set (ruleDict c)" using k by (simp add: e_def)
  let ?ds = "case descSingular e of None \<Rightarrow> '''' | Some d \<Rightarrow> d"
  let ?dp = "case descPlural e of None \<Rightarrow> ?ds | Some d \<Rightarrow> d"
  have ds_free: "c \<noteq> Rule \<longrightarrow> dollar_free ?ds \<and> dollar_free ?dp"
    using table_dollar_free(1,2) [OF _ e] by (auto split: option.splits)
  let ?res0 = "if childTypes e = None then Inr ([], ?ds, ?dp) else inst_children 0 kids ?ds ?dp"
  have eq: "instantiateRule (Skel ty k kids a) =
      (case ?res0 of Inl err \<Rightarrow> Inl err
       | Inr (children, ds1, dp1) \<Rightarrow>
           (case attribute e of
              None \<Rightarrow> Inr (Inst ds1 dp1 (match e) children a)
            | Some attrs \<Rightarrow> Inr (Inst (js_replace ds1 ''@'' (js_index_str attrs a))
                               (js_replace dp1 ''@'' (js_index_str attrs a)) (match e) children a)))"
    using k unfolding instantiateRule.simps Let_def e_def ty by simp
  obtain children ds1 dp1 where ch: "?res0 = Inr (children, ds1, dp1)"
    using "1.prems"(2) unfolding eq by (cases ?res0) (auto split: prod.splits)
  have res: "it = (case attribute e of
                      None \<Rightarrow> Inst ds1 dp1 (match e) children a
                    | Some attrs \<Rightarrow> Inst (js_replace ds1 ''@'' (js_index_str attrs a))
                        (js_replace dp1 ''@'' (js_index_str attrs a)) (match e) children a)"
    using "1.prems"(2) unfolding eq ch by (cases "attribute e") auto
  have kids': "list_all2 skel_ok (children_of e) kids" using kids by (simp add: e_def)
  have free1: "list_all desc_free children \<and> (c \<noteq> Rule \<longrightarrow> dollar_free ds1 \<and> dollar_free dp1)"
  proof (cases "childTypes e = None")
    case True
    with ch ds_free show ?thesis by auto
  next
    case False
    with ch have ic: "inst_children 0 kids ?ds ?dp = Inr (children, ds1, dp1)" by simp
    have "list_all desc_free children \<and> (dollar_free ?ds \<longrightarrow> dollar_free ?dp \<longrightarrow> dollar_free ds1 \<and> dollar_free dp1)"
      using "1.IH" [OF _ refl refl refl, unfolded ty, folded e_def, OF _ False kids' children_not_Rule [OF e] ic] k
      by simp
    with ds_free show ?thesis by blast
  qed
  show ?case
  proof (cases "attribute e")
    case None
    with free1 res show ?thesis by (simp add: desc_free_Inst)
  next
    case (Some attrs)
    have "dollar_free (js_index_str attrs a)"
      using table_dollar_free(3) [OF e Some] attr Some by (simp add: e_def js_index_str_def)
    with free1 res Some show ?thesis by (simp add: desc_free_Inst)
  qed
next
  case (2 i ds dp)
  then show ?case by simp
next
  case (3 i c kids ds dp)
  from "3.prems"(1) obtain c0 cs' where cs: "cs = c0 # cs'" "skel_ok c0 c" "list_all2 skel_ok cs' kids"
    by (auto simp: list_all2_Cons2)
  obtain child where child: "instantiateRule c = Inr child"
    using "3.prems"(3) by (auto split: sum.splits)
  let ?n = "decimal (Suc i)"
  let ?ds2 = "js_replace (js_replace ds (''%'' @ ?n) (idescS child)) (''$'' @ ?n) (idescP child)"
  let ?dp2 = "js_replace (js_replace dp (''%'' @ ?n) (idescS child)) (''$'' @ ?n) (idescP child)"
  obtain its' where rest: "inst_children (Suc i) kids ?ds2 ?dp2 = Inr (its', ds', dp')"
    and its: "its = child # its'"
    using "3.prems"(3) child by (auto simp: Let_def split: sum.splits)
  have c0: "c0 \<noteq> Rule" using "3.prems"(2) cs(1) by auto
  have cf: "desc_free child" using "3.IH"(1) [OF cs(2) child] c0 by simp
  have "list_all desc_free its' \<and> (dollar_free ?ds2 \<longrightarrow> dollar_free ?dp2 \<longrightarrow> dollar_free ds' \<and> dollar_free dp')"
    using "3.IH"(2) [OF child refl refl refl refl refl cs(3) _ rest] "3.prems"(2) cs(1) by simp
  moreover have "dollar_free (idescS child)" "dollar_free (idescP child)"
    using cf by (simp_all add: desc_free_def)
  ultimately show ?case using cf its by simp
qed

text \<open>Evaluating a well-typed rule on a 9-cell grid never throws and returns a
  value of its category's type.\<close>

lemma imatch_typed:
  "inst_ok c it \<Longrightarrow> length g = 9 \<Longrightarrow> fn_ok g c (imatch it g)"
proof (induction c it rule: inst_ok.induct)
  case (1 c ds dp rm cs a)
  then obtain m where m: "rm = Some m" "matcher_category m = c"
    and len: "length cs = length (matcher_children m)"
    and kids: "list_all (\<lambda>(c', i). inst_ok c' i) (zip (matcher_children m) cs)"
    by (auto split: option.splits)
  have "list_all2 (fn_ok g) (matcher_children m) (map (\<lambda>c. imatch c g) cs)"
  proof (rule list_all2_map_zip)
    fix c' i assume ci: "(c', i) \<in> set (zip (matcher_children m) cs)"
    with kids have "inst_ok c' i" by (auto simp: list_all_iff)
    with "1.IH" [OF m(1) ci] "1.prems"(2) show "fn_ok g c' (imatch i g)" by simp
  qed (use len in simp)
  then show ?case
    using rawMatch_typed [OF _ "1.prems"(2)] m unfolding fn_ok_def by auto
qed

text \<open>A rule drawn by \<open>randomRule\<close> is well typed, and the source stays in [0, 1);
  the only error is \<open>No valid choices\<close>.\<close>

lemma randomRule_cases:
  assumes ok: "rng_ok r"
  shows "(\<exists>c. randomRule r = Inl (NoValidChoices c)) \<or>
         (\<exists>rule r'. randomRule r = Inr (rule, r') \<and> inst_ok Rule rule \<and> rng_ok r')"
proof (cases "gen Rule {} r")
  case (Inl err)
  then show ?thesis using gen_error(1) [OF Inl] by (auto simp: randomRule_def)
next
  case (Inr res)
  obtain sk ts' r' where res: "res = (sk, ts', r')" by (cases res) auto
  from gen_skel_ok(1) [OF Inr [unfolded res] ok] have sk: "skel_ok Rule sk" and ok': "rng_ok r'"
    by auto
  from instantiate_ok(1) [OF sk] obtain rule where
    "instantiateRule sk = Inr rule" "inst_ok Rule rule" by blast
  with Inr res ok' show ?thesis by (simp add: randomRule_def)
qed

lemma imatch_Rule:
  "inst_ok Rule rule \<Longrightarrow> length g = 9 \<Longrightarrow> \<exists>b. imatch rule g Undef = Some (VBool b)"
proof -
  assume "inst_ok Rule rule" "length g = 9"
  from imatch_typed [OF this] obtain v where "imatch rule g Undef = Some v" "val_ok Rule g v"
    by (auto simp: fn_ok_def)
  then show ?thesis by (cases v) auto
qed

section \<open>Properties of random rules\<close>

text \<open>C2: every random rule is a predicate on grids. Drawing a rule either throws
  \<open>No valid choices\<close> (never \<open>Rule template not found\<close>), or yields a rule whose
  \<open>match(g)\<close> returns a boolean, without throwing, on every 9-cell grid.\<close>

theorem randomRule_typed:
  assumes ok: "rng_ok r"
  shows "case randomRule r of
           Inl err \<Rightarrow> (\<exists>c. err = NoValidChoices c)
         | Inr (rule, r') \<Rightarrow> rng_ok r' \<and>
             (\<forall>g. length g = 9 \<longrightarrow> (\<exists>b. imatch rule g Undef = Some (VBool b)))"
  using randomRule_cases [OF ok] imatch_Rule by auto

theorem randomRule_typed_witness:
  "rng_ok (const_rng (1 / 2)) \<and>
   (case randomRule (const_rng (1 / 2)) of
      Inl err \<Rightarrow> (\<exists>c. err = NoValidChoices c)
    | Inr (rule, r') \<Rightarrow> rng_ok r' \<and>
        (\<forall>g. length g = 9 \<longrightarrow> (\<exists>b. imatch rule g Undef = Some (VBool b))))"
  using randomRule_typed [of "const_rng (1 / 2)"] by simp

lemma inst_every_color_shape:
  assumes "a < 3" "b < 3"
  shows "instantiateRule (Skel Rule 0 [Skel Noun 0 [] a, Skel NounPred 1 [] b] 0) =
    Inr (Inst (''Every '' @ color_names ! a @ '' symbol is a '' @ shape_names ! b)
              (''Every '' @ color_names ! a @ '' symbol is a '' @ shape_names ! b)
              (Some (RuleM EveryIs))
              [Inst (color_names ! a @ '' symbol'') (color_names ! a @ '' symbols'') (Some (NounM NounColor)) [] a,
               Inst (''a '' @ shape_names ! b) (shape_names ! b @ ''s'') (Some (PredM PredShape)) [] b] 0)"
proof -
  have "a \<in> {0, 1, 2}" "b \<in> {0, 1, 2}" using assms by auto
  then show ?thesis
    by (auto simp: table_defs js_replace_def js_index_str_def Let_def decimal.simps
        color_names_def shape_names_def)
qed

text \<open>C14: the specification's example rule, for every colour and shape: the
  skeleton "every noun is predicate" with the colour noun (attribute \<open>a\<close>) and the shape
  predicate (attribute \<open>b\<close>) instantiates to \<open>Every <colour> symbol is a <shape>\<close>,
  and on every grid its \<open>match\<close> returns, without throwing, whether every symbol of
  colour \<open>a\<close> has shape \<open>b\<close> (true on a grid without such symbols).\<close>

theorem every_color_is_shape:
  assumes "a < 3" "b < 3"
  shows "\<exists>rule. instantiateRule (Skel Rule 0 [Skel Noun 0 [] a, Skel NounPred 1 [] b] 0) = Inr rule \<and>
     idescS rule = ''Every '' @ color_names ! a @ '' symbol is a '' @ shape_names ! b \<and>
     (\<forall>g. imatch rule g Undef =
            Some (VBool (list_all (\<lambda>c. case c of None \<Rightarrow> True | Some s \<Rightarrow> color s = a \<longrightarrow> shape s = b) g)))"
proof -
  have "imatch (Inst d d (Some (RuleM EveryIs))
              [Inst d1 d2 (Some (NounM NounColor)) [] a, Inst d3 d4 (Some (PredM PredShape)) [] b] 0) g Undef =
        Some (VBool (list_all (\<lambda>c. case c of None \<Rightarrow> True | Some s \<Rightarrow> color s = a \<longrightarrow> shape s = b) g))"
    for d d1 d2 d3 d4 g
    by (simp add: call_bool_def indices_def every_m_Some cell_def list_all_length split: option.split)
  then show ?thesis using inst_every_color_shape [OF assms] by simp
qed

theorem every_color_is_shape_witness:
  "\<exists>rule. instantiateRule (Skel Rule 0 [Skel Noun 0 [] 0, Skel NounPred 1 [] 0] 0) = Inr rule \<and>
     idescS rule = ''Every red symbol is a circle'' \<and>
     imatch rule [Some \<lparr>color = 0, shape = 2\<rparr>, None, None, None, None, None, None, None, None] Undef =
       Some (VBool False)"
  using every_color_is_shape [of 0 0] by (auto simp: color_names_def shape_names_def)

lemma inst_children_same:
  "inst_children i kids d d = Inr (cs, d1, d2) \<Longrightarrow> d1 = d2"
proof (induction kids arbitrary: i d cs)
  case Nil then show ?case by auto
next
  case (Cons k ks)
  then show ?case by (auto simp: Let_def split: sum.splits prod.splits)
qed

text \<open>C20: a template without \<open>descPlural\<close> takes its singular description as the
  plural one (\<open>template.descPlural ?? template.descSingular\<close>), and the children's
  and the attribute's replacements then apply alike to both, so the instantiated plural
  text equals the singular text, for every such entry, children and attribute.\<close>

theorem plural_defaults_to_singular:
  assumes "k < length (ruleDict ty)" "descPlural (ruleDict ty ! k) = None"
    and "instantiateRule (Skel ty k kids a) = Inr it"
  shows "idescP it = idescS it"
  using assms
  by (auto simp: Let_def split: sum.splits prod.splits option.splits if_splits
      dest!: inst_children_same)

theorem plural_defaults_to_singular_witness:
  "\<exists>it. instantiateRule (Skel NounPred 0 [] 0) = Inr it \<and> idescP it = idescS it"
proof -
  have i: "instantiateRule (Skel NounPred 0 [] 0) = Inr (Inst ''red'' ''red'' (Some (PredM PredColor)) [] 0)"
    by (simp add: table_defs js_replace_def js_index_str_def)
  have "0 < length (ruleDict NounPred)" "descPlural (ruleDict NounPred ! 0) = None"
    by (simp_all add: table_defs)
  with i show ?thesis
    using plural_defaults_to_singular [of 0 NounPred "[]" 0 "Inst ''red'' ''red'' (Some (PredM PredColor)) [] 0"]
    by blast
qed

end
