(* ===== verification/Sampler.thy ===== *)
theory Sampler
  imports Instantiate
begin

text \<open>
  The grid sampler and the example generator (src/js/zendo-prototype.js,
  \<open>randomGrid\<close> lines 262--275, \<open>generateExamples\<close> lines 284--313).
  \<^item> \<open>randomGrid_loop i fillTarget g r\<close> is the \<open>for\<close> loop of \<open>randomGrid\<close> from cell
    \<open>i\<close>: one draw decides whether cell \<open>i\<close> is filled (\<open>Math.random() < fillTarget / (9-i)\<close>,
    a real division), two more draw the colour and then the shape. \<open>fillTarget\<close> is
    an \<open>int\<close> as in the code, where \<open>fillTarget--\<close> could in principle go below 0.
  \<^item> \<open>examples_loop\<close> is the \<open>while\<close> loop of \<open>generateExamples\<close> with its 500-attempt
    ceiling; it terminates by the measure \<open>500 - attempts\<close>. \<open>rule.match(g)\<close> throwing
    is the value \<open>None\<close>; its result is read by JavaScript truthiness.
  \<^item> \<open>generateExamples\<close> returns \<open>[]\<close> when there is no rule (\<open>if (!rule)\<close>) and
    otherwise the valid grids followed by the invalid ones.
  The lemmas show that a sampled grid is well formed and holds exactly the drawn fill
  target of symbols, that the examples are labelled correctly and never more than
  requested, and that against a tautology the loop runs all 500 attempts and returns no
  invalid grid.
\<close>

function randomGrid_loop :: "nat \<Rightarrow> int \<Rightarrow> grid \<Rightarrow> rng \<Rightarrow> grid \<times> rng" where
  "randomGrid_loop i fillTarget g r =
     (if i < 9 then
        (case random r of
           (x, r1) \<Rightarrow>
             if x < real_of_int fillTarget / real (9 - i) then
               (case rand_below 3 r1 of
                  (c, r2) \<Rightarrow>
                    (case rand_below 3 r2 of
                       (s, r3) \<Rightarrow>
                         randomGrid_loop (Suc i) (fillTarget - 1)
                           (g[i := Some \<lparr>color = c, shape = s\<rparr>]) r3))
             else randomGrid_loop (Suc i) fillTarget g r1)
      else (g, r))"
  by pat_completeness auto
termination
  by (relation "measure (\<lambda>(i, _, _, _). 9 - i)") auto

definition randomGrid :: "rng \<Rightarrow> grid \<times> rng" where
  "randomGrid r =
     (case rand_below 7 r of
        (k, r1) \<Rightarrow> randomGrid_loop 0 (int k + 3) (replicate 9 None) r1)"

text \<open>The number of occupied cells among the given indices.\<close>

definition filled :: "grid \<Rightarrow> nat list \<Rightarrow> nat" where
  "filled g is = length (filter (\<lambda>j. cell g j \<noteq> None) is)"

function examples_loop :: "inst \<Rightarrow> nat \<Rightarrow> nat \<Rightarrow> nat \<Rightarrow> grid list \<Rightarrow> grid list \<Rightarrow> rng
                             \<Rightarrow> (grid list \<times> grid list \<times> nat \<times> rng) option" where
  "examples_loop rule validCount invalidCount attempts validGrids invalidGrids r =
     (if attempts < 500 \<and> (length validGrids < validCount \<or> length invalidGrids < invalidCount) then
        (case randomGrid r of
           (g, r1) \<Rightarrow>
             (case imatch rule g Undef of
                None \<Rightarrow> None
              | Some v \<Rightarrow>
                  if truthy v then
                    examples_loop rule validCount invalidCount (Suc attempts)
                      (if length validGrids < validCount then validGrids @ [g] else validGrids)
                      invalidGrids r1
                  else
                    examples_loop rule validCount invalidCount (Suc attempts) validGrids
                      (if length invalidGrids < invalidCount then invalidGrids @ [g] else invalidGrids)
                      r1))
      else Some (validGrids, invalidGrids, attempts, r))"
  by pat_completeness auto
termination
  by (relation "measure (\<lambda>(_, _, _, attempts, _, _, _). 500 - attempts)") auto

definition generateExamples :: "inst option \<Rightarrow> nat \<Rightarrow> nat \<Rightarrow> rng \<Rightarrow> (grid list \<times> rng) option" where
  "generateExamples rule validCount invalidCount r =
     (case rule of
        None \<Rightarrow> Some ([], r)
      | Some ru \<Rightarrow>
          map_option (\<lambda>(validGrids, invalidGrids, _, r'). (validGrids @ invalidGrids, r'))
            (examples_loop ru validCount invalidCount 0 [] [] r))"

text \<open>The contract of the result: each bucket no longer than requested, each grid
  well formed and labelled by the rule as its bucket says.\<close>

definition valid_for :: "inst \<Rightarrow> bool \<Rightarrow> grid \<Rightarrow> bool" where
  "valid_for rule b g \<longleftrightarrow> wf_grid g \<and> imatch rule g Undef = Some (VBool b)"

definition buckets_ok :: "inst \<Rightarrow> nat \<Rightarrow> nat \<Rightarrow> grid list \<Rightarrow> grid list \<Rightarrow> bool" where
  "buckets_ok rule validCount invalidCount validGrids invalidGrids \<longleftrightarrow>
     length validGrids \<le> validCount \<and> length invalidGrids \<le> invalidCount \<and>
     list_all (valid_for rule True) validGrids \<and> list_all (valid_for rule False) invalidGrids"

text \<open>Two instantiated rules: the specification's \<open>Every red symbol is a circle\<close>,
  and the tautology \<open>Every red symbol is red\<close>, which the generator never builds (the
  colour noun and the colour predicate share the tag \<open>color\<close>).\<close>

definition red_circle_rule :: inst where
  "red_circle_rule = Inst ''Every red symbol is a circle'' ''Every red symbol is a circle''
     (Some (RuleM EveryIs))
     [Inst ''red symbol'' ''red symbols'' (Some (NounM NounColor)) [] 0,
      Inst ''a circle'' ''circles'' (Some (PredM PredShape)) [] 0] 0"

definition red_is_red_rule :: inst where
  "red_is_red_rule = Inst ''Every red symbol is red'' ''Every red symbol is red''
     (Some (RuleM EveryIs))
     [Inst ''red symbol'' ''red symbols'' (Some (NounM NounColor)) [] 0,
      Inst ''red'' ''red'' (Some (PredM PredColor)) [] 0] 0"

section \<open>Lemmas\<close>

lemma filled_Cons_upt:
  "i < 9 \<Longrightarrow> filled g [i..<9] = (if cell g i = None then 0 else 1) + filled g [Suc i..<9]"
  by (simp add: filled_def upt_conv_Cons)

lemma wf_grid_update:
  "wf_grid g \<Longrightarrow> c < 3 \<Longrightarrow> s < 3 \<Longrightarrow> wf_grid (g[i := Some \<lparr>color = c, shape = s\<rparr>])"
  by (auto simp: wf_grid_def list_all_iff dest: set_update_subset_insert [THEN subsetD])

text \<open>The loop invariant of selection sampling: with \<open>0 \<le> fillTarget \<le> 9 - i\<close>
  the remaining cells receive exactly \<open>fillTarget\<close> symbols. When \<open>fillTarget = 9 - i\<close>
  the test \<open>x < 1\<close> always fills, and when \<open>fillTarget = 0\<close> the test \<open>x < 0\<close>
  never does, so the invariant is kept on both branches.\<close>

lemma randomGrid_loop_exact:
  "rng_ok r \<Longrightarrow> 0 \<le> ft \<Longrightarrow> ft \<le> int (9 - i) \<Longrightarrow> wf_grid g \<Longrightarrow>
   (\<forall>j. i \<le> j \<longrightarrow> cell g j = None) \<Longrightarrow> randomGrid_loop i ft g r = (g', r') \<Longrightarrow>
   rng_ok r' \<and> wf_grid g' \<and> (\<forall>j<i. cell g' j = cell g j) \<and> filled g' [i..<9] = nat ft"
proof (induction i ft g r arbitrary: g' r' rule: randomGrid_loop.induct)
  case (1 i ft g r)
  show ?case
  proof (cases "i < 9")
    case False
    then show ?thesis using "1.prems" by (simp add: filled_def)
  next
    case i: True
    obtain x r1 where xr: "random r = (x, r1)" by fastforce
    have x: "0 \<le> x" "x < 1" using random_range [OF "1.prems"(1)] xr by simp_all
    have ok1: "rng_ok r1" using "1.prems"(1) xr rng_ok_random [of r] by simp
    have pos: "(0::real) < real (9 - i)" using i by simp
    show ?thesis
    proof (cases "x < real_of_int ft / real (9 - i)")
      case True
      obtain c r2 where cr: "rand_below 3 r1 = (c, r2)" by fastforce
      obtain s r3 where sr: "rand_below 3 r2 = (s, r3)" by fastforce
      have c: "c < 3" using rand_below_less [OF ok1, of 3] cr by simp
      have ok2: "rng_ok r2" using ok1 cr rand_below_rng [of 3 r1] by simp
      have s: "s < 3" using rand_below_less [OF ok2, of 3] sr by simp
      have ok3: "rng_ok r3" using ok2 sr rand_below_rng [of 3 r2] by simp
      have "0 < ft"
      proof (rule ccontr)
        assume "\<not> 0 < ft"
        then have "real_of_int ft / real (9 - i) \<le> 0" using pos by (simp add: divide_nonpos_pos)
        with True x show False by simp
      qed
      define g1 where "g1 = g[i := Some \<lparr>color = c, shape = s\<rparr>]"
      have run: "randomGrid_loop (Suc i) (ft - 1) g1 r3 = (g', r')"
        using "1.prems"(6) i xr True cr sr by (simp add: g1_def)
      have wf1: "wf_grid g1" using wf_grid_update [OF "1.prems"(4) c s] by (simp add: g1_def)
      have len: "length g = 9" using "1.prems"(4) by (simp add: wf_grid_def)
      have empty1: "\<forall>j. Suc i \<le> j \<longrightarrow> cell g1 j = None"
        using "1.prems"(5) by (auto simp: g1_def cell_def split: if_splits)
      have ft1: "0 \<le> ft - 1" "ft - 1 \<le> int (9 - Suc i)" using \<open>0 < ft\<close> "1.prems"(3) i by auto
      have ih: "rng_ok r' \<and> wf_grid g' \<and> (\<forall>j<Suc i. cell g' j = cell g1 j) \<and>
          filled g' [Suc i..<9] = nat (ft - 1)"
        unfolding g1_def
        by (rule "1.IH"(1) [OF i xr [symmetric] True cr [symmetric] sr [symmetric] ok3 ft1
              wf1 [unfolded g1_def] empty1 [unfolded g1_def] run [unfolded g1_def]])
      have "cell g1 i \<noteq> None" using i len by (simp add: g1_def cell_def)
      moreover have "Suc (nat (ft - 1)) = nat ft" using \<open>0 < ft\<close> by (simp add: nat_eq_iff)
      moreover have "\<forall>j<i. cell g1 j = cell g j" by (simp add: g1_def cell_def)
      ultimately show ?thesis using ih i by (simp add: filled_Cons_upt)
    next
      case False
      have "real_of_int ft < real (9 - i)"
      proof -
        have "real_of_int ft / real (9 - i) < 1" using False x by simp
        then show ?thesis using pos by (simp add: divide_less_eq)
      qed
      then have ft': "ft \<le> int (9 - Suc i)" using i by linarith
      have run: "randomGrid_loop (Suc i) ft g r1 = (g', r')"
        using "1.prems"(6) i xr False by simp
      have empty1: "\<forall>j. Suc i \<le> j \<longrightarrow> cell g j = None" using "1.prems"(5) by simp
      from "1.IH"(2) [OF i xr [symmetric] False ok1 "1.prems"(2) ft' "1.prems"(4) empty1 run]
      have ih: "rng_ok r' \<and> wf_grid g' \<and> (\<forall>j<Suc i. cell g' j = cell g j) \<and>
          filled g' [Suc i..<9] = nat ft" .
      with "1.prems"(5) i show ?thesis by (simp add: filled_Cons_upt)
    qed
  qed
qed

text \<open>A sampled grid is well formed and holds the drawn target \<open>k + 3\<close>.\<close>

lemma randomGrid_run:
  assumes ok: "rng_ok r" and run: "randomGrid r = (g, r')"
  shows "rng_ok r' \<and> wf_grid g \<and> filled g [0..<9] = fst (rand_below 7 r) + 3"
proof -
  obtain k r1 where kr: "rand_below 7 r = (k, r1)" by fastforce
  have k: "k < 7" using rand_below_less [OF ok, of 7] kr by simp
  have ok1: "rng_ok r1" using ok kr rand_below_rng [of 7 r] by simp
  have wf0: "wf_grid (replicate 9 None)" by (simp add: wf_grid_def list_all_iff)
  have "rng_ok r' \<and> wf_grid g \<and> (\<forall>j<0. cell g j = cell (replicate 9 None) j) \<and>
        filled g [0..<9] = nat (int k + 3)"
    by (rule randomGrid_loop_exact [OF ok1 _ _ wf0 _ run [unfolded randomGrid_def kr prod.case]])
       (use k in \<open>auto simp: cell_def\<close>)
  moreover have "nat (int k + 3) = k + 3" by (simp add: nat_eq_iff)
  ultimately show ?thesis using kr by simp
qed

lemma randomGrid_ok:
  assumes ok: "rng_ok r" and run: "randomGrid r = (g, r')"
  shows "wf_grid g \<and> rng_ok r'"
  using randomGrid_run [OF ok run] by simp

text \<open>C4: \<open>randomGrid\<close> places exactly the drawn fill target of symbols,
  \<open>floor(7x) + 3\<close> for the first draw \<open>x\<close>, which lies in [3, 9]; the grid has 9
  cells, every symbol has colour and shape in {0, 1, 2}.\<close>

theorem randomGrid_exact:
  assumes ok: "rng_ok r" and run: "randomGrid r = (g, r')"
  shows "wf_grid g \<and> rng_ok r' \<and> filled g [0..<9] = nat \<lfloor>src r (pos r) * 7\<rfloor> + 3 \<and>
         3 \<le> filled g [0..<9] \<and> filled g [0..<9] \<le> 9"
proof -
  have "fst (rand_below 7 r) < 7" using rand_below_less [OF ok, of 7] by simp
  moreover have "fst (rand_below 7 r) = nat \<lfloor>src r (pos r) * 7\<rfloor>"
    by (simp add: rand_below_def random_def)
  ultimately show ?thesis using randomGrid_run [OF ok run] by simp
qed

theorem randomGrid_exact_witness:
  "wf_grid (fst (randomGrid (const_rng (1 / 2)))) \<and> filled (fst (randomGrid (const_rng (1 / 2)))) [0..<9] = 6"
proof -
  have "\<lfloor>(1 / 2 :: real) * 7\<rfloor> = 3" by (simp add: floor_eq_iff)
  then show ?thesis
    using randomGrid_exact [of "const_rng (1 / 2)" "fst (randomGrid (const_rng (1 / 2)))"
        "snd (randomGrid (const_rng (1 / 2)))"]
    by (simp add: const_rng_def [of "1 / 2"] rng_ok_def)
qed

text \<open>The loop keeps the contract of the buckets and never throws on a well-typed
  rule.\<close>

lemma examples_loop_sound:
  "inst_ok Rule rule \<Longrightarrow> rng_ok r \<Longrightarrow> buckets_ok rule vc ic vs ivs \<Longrightarrow>
   \<exists>vs' ivs' n r'. examples_loop rule vc ic att vs ivs r = Some (vs', ivs', n, r') \<and>
     buckets_ok rule vc ic vs' ivs' \<and> rng_ok r'"
proof (induction rule vc ic att vs ivs r rule: examples_loop.induct)
  case (1 rule vc ic att vs ivs r)
  show ?case
  proof (cases "att < 500 \<and> (length vs < vc \<or> length ivs < ic)")
    case False
    then have "examples_loop rule vc ic att vs ivs r = Some (vs, ivs, att, r)"
      by (simp only: examples_loop.simps [of rule vc ic att vs ivs r] if_False)
    with "1.prems" show ?thesis by blast
  next
    case go: True
    obtain g r1 where gr: "randomGrid r = (g, r1)" by fastforce
    from randomGrid_ok [OF "1.prems"(2) gr] have wf: "wf_grid g" and ok1: "rng_ok r1" by auto
    from imatch_typed [OF "1.prems"(1), of g] wf obtain v where
      v: "imatch rule g Undef = Some v" "val_ok Rule g v"
      by (auto simp: fn_ok_def wf_grid_def)
    then obtain b where b: "v = VBool b" by (cases v) auto
    show ?thesis
    proof (cases b)
      case True
      let ?vs = "if length vs < vc then vs @ [g] else vs"
      have "buckets_ok rule vc ic ?vs ivs"
        using "1.prems"(3) wf v b True by (auto simp: buckets_ok_def valid_for_def)
      with "1.IH"(1) [OF go gr [symmetric] v(1)] b True "1.prems"(1) ok1
      obtain res where "examples_loop rule vc ic (Suc att) ?vs ivs r1 = Some res"
        "case res of (vs', ivs', n, r') \<Rightarrow> buckets_ok rule vc ic vs' ivs' \<and> rng_ok r'"
        by fastforce
      moreover have "examples_loop rule vc ic att vs ivs r = examples_loop rule vc ic (Suc att) ?vs ivs r1"
        using go gr v(1) b True by (simp only: examples_loop.simps [of rule vc ic att vs ivs r]) simp
      ultimately show ?thesis by (cases res) auto
    next
      case False
      let ?ivs = "if length ivs < ic then ivs @ [g] else ivs"
      have "buckets_ok rule vc ic vs ?ivs"
        using "1.prems"(3) wf v b False by (auto simp: buckets_ok_def valid_for_def)
      with "1.IH"(2) [OF go gr [symmetric] v(1)] b False "1.prems"(1) ok1
      obtain res where "examples_loop rule vc ic (Suc att) vs ?ivs r1 = Some res"
        "case res of (vs', ivs', n, r') \<Rightarrow> buckets_ok rule vc ic vs' ivs' \<and> rng_ok r'"
        by fastforce
      moreover have "examples_loop rule vc ic att vs ivs r = examples_loop rule vc ic (Suc att) vs ?ivs r1"
        using go gr v(1) b False by (simp only: examples_loop.simps [of rule vc ic att vs ivs r]) simp
      ultimately show ?thesis by (cases res) auto
    qed
  qed
qed

text \<open>C5: for a well-typed rule, \<open>generateExamples(validCount, invalidCount)\<close>
  never throws and returns the valid grids followed by the invalid ones, each bucket at
  most as long as requested, each grid well formed and labelled correctly.\<close>

theorem generateExamples_sound:
  assumes rule: "inst_ok Rule rule" and ok: "rng_ok r"
  shows "\<exists>vs ivs r'. generateExamples (Some rule) validCount invalidCount r = Some (vs @ ivs, r') \<and>
           buckets_ok rule validCount invalidCount vs ivs \<and> rng_ok r'"
proof -
  have "buckets_ok rule validCount invalidCount [] []" by (simp add: buckets_ok_def)
  from examples_loop_sound [OF rule ok this, of 0] obtain vs ivs n r' where
    "examples_loop rule validCount invalidCount 0 [] [] r = Some (vs, ivs, n, r')"
    "buckets_ok rule validCount invalidCount vs ivs" "rng_ok r'"
    by blast
  then show ?thesis
    by (intro exI [of _ vs] exI [of _ ivs] exI [of _ r']) (simp add: generateExamples_def)
qed

theorem generateExamples_sound_witness:
  "\<exists>vs ivs r'. generateExamples (Some red_circle_rule) 1 1 (const_rng (1 / 2)) = Some (vs @ ivs, r') \<and>
     buckets_ok red_circle_rule 1 1 vs ivs \<and> rng_ok r'"
proof -
  have "inst_ok Rule red_circle_rule" by (simp add: red_circle_rule_def)
  then show ?thesis using generateExamples_sound [of red_circle_rule "const_rng (1 / 2)"] by simp
qed

lemma red_is_red_true: "imatch red_is_red_rule g Undef = Some (VBool True)"
  by (simp add: red_is_red_rule_def call_bool_def js_simps list_all_iff split: option.splits)

text \<open>Against a rule that holds on every grid, the invalid bucket never fills: the
  loop runs to its ceiling.\<close>

lemma examples_loop_tautology:
  "(\<forall>g. wf_grid g \<longrightarrow> imatch rule g Undef = Some (VBool True)) \<Longrightarrow> rng_ok r \<Longrightarrow> 0 < ic \<Longrightarrow>
   att \<le> 500 \<Longrightarrow> vc = 0 \<Longrightarrow> vs = [] \<Longrightarrow> ivs = [] \<Longrightarrow>
   \<exists>r'. examples_loop rule vc ic att vs ivs r = Some ([], [], 500, r')"
proof (induction rule vc ic att vs ivs r rule: examples_loop.induct)
  case (1 rule vc ic att vs ivs r)
  show ?case
  proof (cases "att < 500")
    case False
    with "1.prems" show ?thesis by simp
  next
    case go: True
    obtain g r1 where gr: "randomGrid r = (g, r1)" by fastforce
    from randomGrid_ok [OF "1.prems"(2) gr] have wf: "wf_grid g" and ok1: "rng_ok r1" by auto
    have v: "imatch rule g Undef = Some (VBool True)" using "1.prems"(1) wf by blast
    have cond: "att < 500 \<and> (length vs < vc \<or> length ivs < ic)" using go "1.prems" by simp
    have "examples_loop rule vc ic att vs ivs r = examples_loop rule vc ic (Suc att) vs ivs r1"
      using cond gr v "1.prems"(5,6) by (simp only: examples_loop.simps [of rule vc ic att vs ivs r]) simp
    moreover have "\<exists>r'. examples_loop rule vc ic (Suc att) vs ivs r1 = Some ([], [], 500, r')"
      using "1.IH"(1) [OF cond gr [symmetric] v] "1.prems" ok1 go by simp
    ultimately show ?thesis by simp
  qed
qed

text \<open>C17: against a tautology, \<open>generateExamples(0, n)\<close> with \<open>n > 0\<close> makes all
  500 attempts and returns no grid.\<close>

theorem generateExamples_tautology:
  assumes taut: "\<forall>g. wf_grid g \<longrightarrow> imatch rule g Undef = Some (VBool True)"
    and ok: "rng_ok r" and ic: "0 < invalidCount"
  shows "\<exists>r'. examples_loop rule 0 invalidCount 0 [] [] r = Some ([], [], 500, r') \<and>
           generateExamples (Some rule) 0 invalidCount r = Some ([], r')"
proof -
  obtain r' where "examples_loop rule 0 invalidCount 0 [] [] r = Some ([], [], 500, r')"
    using examples_loop_tautology [OF taut ok ic le0 refl refl refl] by blast
  then show ?thesis by (simp add: generateExamples_def del: examples_loop.simps)
qed

theorem generateExamples_tautology_witness:
  "\<exists>r'. examples_loop red_is_red_rule 0 5 0 [] [] (const_rng (1 / 2)) = Some ([], [], 500, r') \<and>
     generateExamples (Some red_is_red_rule) 0 5 (const_rng (1 / 2)) = Some ([], r')"
  by (rule generateExamples_tautology [of red_is_red_rule "const_rng (1 / 2)" 5]) (simp_all add: red_is_red_true)

end
