(* ===== verification/Module.thy ===== *)
theory Module
  imports Sampler "HOL-Library.Multiset"
begin

text \<open>
  The module's state machine (src/js/zendo-prototype.js, lines 6--260 and 797--808):
  the global variables of lines 6--17 as the record \<open>mstate\<close> (with the shared random
  source \<open>rnd\<close>), and one definition per handler that changes them:
  \<open>resetModule\<close>, \<open>setModuleState\<close>, \<open>generateChallenge\<close>, \<open>setColor\<close>,
  \<open>setShape\<close>, \<open>erasePress\<close>, \<open>buttonPress\<close>, \<open>gridOnClick\<close>, with the helpers
  \<open>setDisplayGrid\<close> and \<open>shuffleArray\<close>. \<open>step\<close> dispatches one browser event to its
  handler and \<open>run\<close> folds a sequence of events; \<open>boot\<close> is the call \<open>resetModule()\<close>
  on line 844.
  A handler that throws returns the state it had reached at the throw together with the
  exception, and \<open>run\<close> continues from that state, as the browser does after an event
  handler throws. Where a throw happens after draws from the random source
  (\<open>randomRule\<close>, \<open>generateExamples\<close>), the model keeps the source position of the
  call: every theorem quantifies over all sources, so which later draws are read does not
  matter. \<open>refreshDisplay\<close>, \<open>setCanvasScale\<close> and the drawing functions only write to the
  DOM and canvas and are not modelled; \<open>showRule\<close> is read from a checkbox by
  \<open>refreshDisplay\<close> alone.
  \<open>setDisplayGrid(g)\<close> copies \<open>g[0..8]\<close>; a cell past the end of \<open>g\<close> is read as
  \<open>null\<close> (every grid passed has 9 cells, \<open>generateExamples_ok\<close>). \<open>gridOnClick\<close> computes the
  cell index \<open>c + r*3\<close> as an integer and assigns it through \<open>js_array_set\<close>, so a
  negative index would be visible as it is in the code. In \<open>shuffleArray\<close>
  the swap index lies in the array whenever the draw is in [0, 1). \<open>answer == actual\<close>
  compares a boolean with the rule's result, a boolean for every well-typed rule
  (\<open>imatch_Rule\<close>); \<open>loose_eq_bool\<close> gives the comparison with an array, which never
  occurs, the value false.
\<close>

datatype mode = Edit | Challenge | Solved | Failed

datatype button = BtnY | BtnN | BtnReady

datatype exn = GenError error | TypeError

record mstate =
  grid :: grid
  rule :: "inst option"
  brushColor :: nat
  brushShape :: nat
  brushErase :: bool
  moduleState :: mode
  stageNumber :: nat
  challenge :: "grid list"
  rnd :: rng

text \<open>\<open>stageTotal\<close> is a \<open>let\<close> that is never reassigned.\<close>

definition stageTotal :: nat where
  "stageTotal = 5"

definition empty_grid :: grid where
  "empty_grid = replicate 9 None"

definition initial_state :: "rng \<Rightarrow> mstate" where
  "initial_state r = \<lparr>grid = empty_grid, rule = None, brushColor = 0, brushShape = 0,
     brushErase = False, moduleState = Edit, stageNumber = 1, challenge = [], rnd = r\<rparr>"

definition setDisplayGrid :: "grid \<Rightarrow> mstate \<Rightarrow> mstate" where
  "setDisplayGrid g s = s\<lparr>grid := map (cell g) [0..<9] @ drop 9 (grid s)\<rparr>"

function shuffle_loop :: "nat \<Rightarrow> 'a list \<Rightarrow> rng \<Rightarrow> 'a list \<times> rng" where
  "shuffle_loop i a r =
     (if i < length a then
        (case random r of
           (x, r1) \<Rightarrow>
             (let j = nat \<lfloor>x * real (length a - i)\<rfloor> + i
              in shuffle_loop (Suc i) (a[i := a ! j, j := a ! i]) r1))
      else (a, r))"
  by pat_completeness auto
termination
  by (relation "measure (\<lambda>(i, a, _). length a - i)") auto

definition shuffleArray :: "'a list \<Rightarrow> rng \<Rightarrow> 'a list \<times> rng" where
  "shuffleArray a r = shuffle_loop 0 a r"

definition generateChallenge :: "mstate \<Rightarrow> mstate \<times> exn option" where
  "generateChallenge s =
     (case generateExamples (rule s) (stageTotal - 1) (stageTotal - 1) (rnd s) of
        None \<Rightarrow> (s, Some TypeError)
      | Some (examples, r1) \<Rightarrow>
          (case shuffleArray examples r1 of
             (shuffled, r2) \<Rightarrow>
               (let s1 = s\<lparr>challenge := take stageTotal shuffled, rnd := r2\<rparr>
                in if challenge s1 = [] then (s1, Some TypeError)
                   else (setDisplayGrid (challenge s1 ! 0) s1\<lparr>stageNumber := 0\<rparr>, None))))"

definition setModuleState :: "mode \<Rightarrow> mstate \<Rightarrow> mstate \<times> exn option" where
  "setModuleState newState s =
     (let s1 = s\<lparr>moduleState := newState\<rparr>
      in if newState = Challenge then generateChallenge s1 else (s1, None))"

definition resetModule :: "mstate \<Rightarrow> mstate \<times> exn option" where
  "resetModule s =
     (case randomRule (rnd s) of
        Inl err \<Rightarrow> (s, Some (GenError err))
      | Inr (ru, r1) \<Rightarrow>
          (let s1 = s\<lparr>rule := Some ru, brushColor := 0, brushShape := 0, brushErase := False,
                      rnd := r1\<rparr>
           in case generateExamples (Some ru) 1 0 r1 of
                None \<Rightarrow> (s1, Some TypeError)
              | Some (examples, r2) \<Rightarrow>
                  setModuleState Edit
                    (setDisplayGrid (if length examples = 1 then examples ! 0 else empty_grid)
                       (s1\<lparr>rnd := r2\<rparr>))))"

definition setColor :: "nat \<Rightarrow> mstate \<Rightarrow> mstate" where
  "setColor newColor s = s\<lparr>brushColor := newColor, brushErase := False\<rparr>"

definition setShape :: "nat \<Rightarrow> mstate \<Rightarrow> mstate" where
  "setShape newShape s = s\<lparr>brushShape := newShape, brushErase := False\<rparr>"

definition erasePress :: "mstate \<Rightarrow> mstate" where
  "erasePress s =
     (if moduleState s = Challenge then s
      else if brushErase s then setDisplayGrid empty_grid s
      else s\<lparr>brushErase := True\<rparr>)"

fun loose_eq_bool :: "bool \<Rightarrow> val \<Rightarrow> bool" where
  "loose_eq_bool answer (VBool b) = (answer = b)"
| "loose_eq_bool answer (VGroups gs) = False"

definition show_example :: "nat \<Rightarrow> nat \<Rightarrow> mstate \<Rightarrow> mstate \<times> exn option" where
  "show_example validCount invalidCount s =
     (case generateExamples (rule s) validCount invalidCount (rnd s) of
        None \<Rightarrow> (s, Some TypeError)
      | Some (examples, r1) \<Rightarrow>
          (if length examples = 1 then setDisplayGrid (examples ! 0) (s\<lparr>rnd := r1\<rparr>)
           else s\<lparr>rnd := r1\<rparr>, None))"

definition buttonPress :: "button \<Rightarrow> mstate \<Rightarrow> mstate \<times> exn option" where
  "buttonPress button s =
     (if moduleState s = Challenge then
        (if button = BtnReady then setModuleState Edit s
         else
           (let answer = (button = BtnY)
            in case rule s of
                 None \<Rightarrow> (s, Some TypeError)
               | Some ru \<Rightarrow>
                   (case imatch ru (grid s) Undef of
                      None \<Rightarrow> (s, Some TypeError)
                    | Some actual \<Rightarrow>
                        if loose_eq_bool answer actual then
                          (let s1 = s\<lparr>stageNumber := Suc (stageNumber s)\<rparr>
                           in if stageNumber s1 < length (challenge s1)
                              then (setDisplayGrid (challenge s1 ! stageNumber s1) s1, None)
                              else setModuleState Solved s1)
                        else setModuleState Failed s)))
      else
        (case button of
           BtnY \<Rightarrow> show_example 1 0 s
         | BtnN \<Rightarrow> show_example 0 1 s
         | BtnReady \<Rightarrow> if moduleState s = Edit then setModuleState Challenge s else resetModule s))"

definition clamp_cell :: "real \<Rightarrow> int" where
  "clamp_cell x = min (max 0 \<lfloor>x * 3\<rfloor>) 2"

definition gridOnClick :: "real \<Rightarrow> real \<Rightarrow> mstate \<Rightarrow> mstate" where
  "gridOnClick x y s =
     (if moduleState s = Challenge then s
      else
        (let c = clamp_cell x; r = clamp_cell y; i = c + r * 3
         in s\<lparr>grid := js_array_set (grid s) i
                          (if brushErase s then None
                           else Some \<lparr>color = brushColor s, shape = brushShape s\<rparr>)\<rparr>))"

text \<open>The events: the page's buttons and the canvas click, with the click position as
  the fractions \<open>offsetX / clientWidth\<close> and \<open>offsetY / clientWidth\<close>.\<close>

datatype event = ResetModule | SetColor nat | SetShape nat | ErasePress | ButtonPress button
  | GridClick real real

fun step :: "mstate \<Rightarrow> event \<Rightarrow> mstate \<times> exn option" where
  "step s ResetModule = resetModule s"
| "step s (SetColor c) = (setColor c s, None)"
| "step s (SetShape c) = (setShape c s, None)"
| "step s ErasePress = (erasePress s, None)"
| "step s (ButtonPress b) = buttonPress b s"
| "step s (GridClick x y) = (gridOnClick x y s, None)"

fun run :: "mstate \<Rightarrow> event list \<Rightarrow> mstate" where
  "run s [] = s"
| "run s (e # es) = run (fst (step s e)) es"

definition boot :: "rng \<Rightarrow> mstate \<times> exn option" where
  "boot r = resetModule (initial_state r)"

text \<open>The page elements \<open>refreshDisplay\<close> writes (lines 54--115): the two status texts,
  the highlight class of the Y, N and ready buttons, and the status light. A class the
  code does not touch keeps its previous value, so \<open>refreshDisplay\<close> maps the previous
  page state to the next. The canvas drawing that follows is not modelled.\<close>

datatype light = LightOff | LightSolve | LightStrike

record page =
  ruleString :: string
  validString :: string
  yesHighlight :: bool
  noHighlight :: bool
  readyHighlight :: bool
  statusLight :: light

definition refreshDisplay :: "bool \<Rightarrow> mstate \<Rightarrow> page \<Rightarrow> page option" where
  "refreshDisplay showRule s p =
     (case (case rule s of None \<Rightarrow> Some None | Some ru \<Rightarrow> map_option Some (imatch ru (grid s) Undef)) of
        None \<Rightarrow> None
      | Some isValid \<Rightarrow>
          (let p1 =
             (case rule s of
                None \<Rightarrow> p\<lparr>ruleString := ''No rule'', validString := ''''\<rparr>
              | Some ru \<Rightarrow>
                  (let p0 = p\<lparr>ruleString :=
                        (if showRule \<or> moduleState s = Solved \<or> moduleState s = Failed
                         then ''Rule: '' @ idescS ru else ''Rule: ?'')\<rparr>
                   in if moduleState s = Challenge then
                        p0\<lparr>validString := ''Challenge mode - '' @ decimal (stageNumber s) @ '' / '' @
                                           decimal (length (challenge s)) @ '' solved'',
                           yesHighlight := False, noHighlight := False, readyHighlight := True\<rparr>
                      else
                        (let status = (if moduleState s = Solved then ''SOLVED! ''
                                       else if moduleState s = Failed then ''INCORRECT - '' else '''')
                         in if (case isValid of None \<Rightarrow> False | Some v \<Rightarrow> truthy v)
                            then p0\<lparr>validString := status @ ''This pattern is valid'',
                                    yesHighlight := True, noHighlight := False, readyHighlight := False\<rparr>
                            else p0\<lparr>validString := status @ ''This pattern is invalid'',
                                    yesHighlight := False, noHighlight := True, readyHighlight := False\<rparr>)))
           in Some (p1\<lparr>statusLight := (if moduleState s = Solved then LightSolve
                                        else if moduleState s = Failed then LightStrike else LightOff)\<rparr>)))"

text \<open>The invariant of the module state. \<open>base_inv\<close>: the grid has 9 cells, the random
  source draws in [0, 1), a rule, when there is one, is well typed, and the challenge is
  at most \<open>stageTotal\<close> grids of 9 cells. \<open>module_inv\<close> adds the challenge mode's
  promise: with a rule, the stage number points into the challenge and the grid shown
  is the current stage's grid.\<close>

definition base_inv :: "mstate \<Rightarrow> bool" where
  "base_inv s \<longleftrightarrow> length (grid s) = 9 \<and> rng_ok (rnd s) \<and>
     (case rule s of None \<Rightarrow> True | Some ru \<Rightarrow> inst_ok Rule ru) \<and>
     list_all (\<lambda>g. length g = 9) (challenge s) \<and> length (challenge s) \<le> stageTotal"

definition module_inv :: "mstate \<Rightarrow> bool" where
  "module_inv s \<longleftrightarrow> base_inv s \<and>
     (moduleState s = Challenge \<and> rule s \<noteq> None \<longrightarrow>
        stageNumber s < length (challenge s) \<and> grid s = challenge s ! stageNumber s)"

section \<open>Lemmas\<close>

lemma shuffle_index:
  assumes "rng_ok r" "random r = (x, r1)" "i < n"
  shows "nat \<lfloor>x * real (n - i)\<rfloor> + i < n"
proof -
  have "0 \<le> x" "x < 1" using random_range [OF assms(1)] assms(2) by simp_all
  then have "nat \<lfloor>x * real (n - i)\<rfloor> < n - i" using assms(3) by (intro floor_draw_less) simp_all
  then show ?thesis by arith
qed

lemma shuffle_loop_mset:
  "rng_ok r \<Longrightarrow> shuffle_loop i a r = (b, r') \<Longrightarrow> mset b = mset a \<and> rng_ok r'"
proof (induction i a r rule: shuffle_loop.induct)
  case (1 i a r)
  show ?case
  proof (cases "i < length a")
    case False
    with "1.prems" show ?thesis by simp
  next
    case True
    obtain x r1 where xr: "random r = (x, r1)" by fastforce
    define j where "j = nat \<lfloor>x * real (length a - i)\<rfloor> + i"
    have j: "j < length a" unfolding j_def by (rule shuffle_index [OF "1.prems"(1) xr True])
    have ok1: "rng_ok r1" using "1.prems"(1) xr rng_ok_random [of r] by simp
    have run: "shuffle_loop (Suc i) (a[i := a ! j, j := a ! i]) r1 = (b, r')"
      using "1.prems"(2) True xr by (simp add: j_def Let_def)
    have "mset (a[i := a ! j, j := a ! i]) = mset a" using mset_swap [OF j True] .
    with "1.IH" [OF True xr [symmetric] j_def ok1 run] show ?thesis by simp
  qed
qed

lemma setDisplayGrid_fields [simp]:
  "rule (setDisplayGrid g s) = rule s" "moduleState (setDisplayGrid g s) = moduleState s"
  "challenge (setDisplayGrid g s) = challenge s" "stageNumber (setDisplayGrid g s) = stageNumber s"
  "rnd (setDisplayGrid g s) = rnd s"
  by (simp_all add: setDisplayGrid_def)

lemma setDisplayGrid_length [simp]:
  "length (grid s) = 9 \<Longrightarrow> length (grid (setDisplayGrid g s)) = 9"
  by (simp add: setDisplayGrid_def)

lemma setDisplayGrid_grid:
  "length (grid s) = 9 \<Longrightarrow> length g = 9 \<Longrightarrow> grid (setDisplayGrid g s) = g"
  by (auto simp: setDisplayGrid_def intro: nth_equalityI)

lemma base_inv_setDisplayGrid [simp]: "base_inv s \<Longrightarrow> base_inv (setDisplayGrid g s)"
  by (simp add: base_inv_def)

lemma base_inv_update [simp]:
  "base_inv (s\<lparr>stageNumber := n\<rparr>) = base_inv s"
  "base_inv (s\<lparr>moduleState := m\<rparr>) = base_inv s"
  "base_inv (s\<lparr>brushColor := c\<rparr>) = base_inv s"
  "base_inv (s\<lparr>brushShape := c\<rparr>) = base_inv s"
  "base_inv (s\<lparr>brushErase := b\<rparr>) = base_inv s"
  by (simp_all add: base_inv_def)

lemma empty_grid_length [simp]: "length empty_grid = 9"
  by (simp add: empty_grid_def)

lemma examples_loop_grows:
  "examples_loop ru vc ic att vs ivs r = Some (vs', ivs', n, r') \<Longrightarrow>
   length vs \<le> length vs' \<and> length ivs \<le> length ivs'"
proof (induction ru vc ic att vs ivs r rule: examples_loop.induct)
  case (1 ru vc ic att vs ivs r)
  then show ?case
    by (fastforce split: if_splits prod.splits option.splits simp del: examples_loop.simps
        simp: examples_loop.simps [of ru vc ic att vs ivs r])
qed

lemma examples_loop_nonempty:
  assumes "0 < vc" "0 < ic" "examples_loop ru vc ic 0 [] [] r = Some (vs', ivs', n, r')"
  shows "vs' @ ivs' \<noteq> []"
proof -
  obtain g r1 where gr: "randomGrid r = (g, r1)" by fastforce
  obtain v where v: "imatch ru g Undef = Some v"
    using assms gr by (cases "imatch ru g Undef") (simp_all add: examples_loop.simps [of ru vc ic 0 "[]" "[]" r])
  show ?thesis
  proof (cases "truthy v")
    case True
    with assms gr v have "examples_loop ru vc ic 1 [g] [] r1 = Some (vs', ivs', n, r')"
      by (simp add: examples_loop.simps [of ru vc ic 0 "[]" "[]" r])
    from examples_loop_grows [OF this] show ?thesis by auto
  next
    case False
    with assms gr v have "examples_loop ru vc ic 1 [] [g] r1 = Some (vs', ivs', n, r')"
      by (simp add: examples_loop.simps [of ru vc ic 0 "[]" "[]" r])
    from examples_loop_grows [OF this] show ?thesis by auto
  qed
qed

lemma generateExamples_ok:
  assumes ok: "rng_ok r" and ru: "case ru of None \<Rightarrow> True | Some x \<Rightarrow> inst_ok Rule x"
  shows "\<exists>ex r'. generateExamples ru vc ic r = Some (ex, r') \<and> rng_ok r' \<and>
           list_all (\<lambda>g. length g = 9) ex \<and> (ru \<noteq> None \<longrightarrow> 0 < vc \<longrightarrow> 0 < ic \<longrightarrow> ex \<noteq> [])"
proof (cases ru)
  case None
  with ok show ?thesis by (simp add: generateExamples_def)
next
  case (Some x)
  with ru have x: "inst_ok Rule x" by simp
  have "buckets_ok x vc ic [] []" by (simp add: buckets_ok_def)
  from examples_loop_sound [OF x ok this, of 0] obtain vs ivs n r' where
    l: "examples_loop x vc ic 0 [] [] r = Some (vs, ivs, n, r')" and
    b: "buckets_ok x vc ic vs ivs" and ok': "rng_ok r'"
    by blast
  have "list_all (\<lambda>g. length g = 9) (vs @ ivs)"
    using b by (auto simp: buckets_ok_def valid_for_def wf_grid_def list_all_iff)
  moreover have "0 < vc \<longrightarrow> 0 < ic \<longrightarrow> vs @ ivs \<noteq> []"
    using examples_loop_nonempty [OF _ _ l] by blast
  ultimately show ?thesis using Some l ok' by (simp add: generateExamples_def)
qed

lemma module_inv_not_challenge:
  "base_inv s \<Longrightarrow> moduleState s \<noteq> Challenge \<Longrightarrow> module_inv s"
  by (simp add: module_inv_def)

text \<open>What \<open>generateChallenge\<close> does from a state with a valid random source and a
  well-typed rule or none: it stores a challenge \<open>ch\<close> of at most \<open>stageTotal\<close> 9-cell
  grids, empty exactly when there is no rule, and then either throws (empty) or shows the
  first grid and resets the stage.\<close>

lemma generateChallenge_shape:
  assumes inv: "base_inv s"
  obtains ch r2 where "list_all (\<lambda>g. length g = 9) ch" "length ch \<le> stageTotal" "rng_ok r2"
    "ch = [] \<longleftrightarrow> rule s = None"
    "generateChallenge s =
       (if ch = [] then (s\<lparr>challenge := ch, rnd := r2\<rparr>, Some TypeError)
        else (setDisplayGrid (ch ! 0) (s\<lparr>challenge := ch, rnd := r2\<rparr>)\<lparr>stageNumber := 0\<rparr>, None))"
proof -
  have ok: "rng_ok (rnd s)" and ru: "case rule s of None \<Rightarrow> True | Some x \<Rightarrow> inst_ok Rule x"
    using inv by (simp_all add: base_inv_def)
  obtain ex r1 where ge: "generateExamples (rule s) 4 4 (rnd s) = Some (ex, r1)" and ok1: "rng_ok r1"
    and len: "list_all (\<lambda>g. length g = 9) ex" and ne: "rule s \<noteq> None \<longrightarrow> ex \<noteq> []"
    using generateExamples_ok [OF ok ru, of 4 4] by auto
  have none: "rule s = None \<longrightarrow> ex = []" using ge by (auto simp: generateExamples_def)
  obtain sh r2 where sh: "shuffleArray ex r1 = (sh, r2)" by fastforce
  from shuffle_loop_mset [OF ok1 sh [unfolded shuffleArray_def]] have ms: "mset sh = mset ex" and ok2: "rng_ok r2" by auto
  then have set_sh: "set sh = set ex" and len_sh: "length sh = length ex"
    by (metis set_mset_mset, metis size_mset)
  define ch where "ch = take stageTotal sh"
  have "list_all (\<lambda>g. length g = 9) ch" "length ch \<le> stageTotal"
    using len set_sh by (auto simp: ch_def list_all_iff dest: in_set_takeD)
  moreover have "ch = [] \<longleftrightarrow> rule s = None"
    using ne none len_sh by (auto simp: ch_def stageTotal_def)
  moreover have "generateChallenge s =
      (if ch = [] then (s\<lparr>challenge := ch, rnd := r2\<rparr>, Some TypeError)
       else (setDisplayGrid (ch ! 0) (s\<lparr>challenge := ch, rnd := r2\<rparr>)\<lparr>stageNumber := 0\<rparr>, None))"
    using ge sh by (simp add: generateChallenge_def stageTotal_def ch_def Let_def)
  ultimately show ?thesis using ok2 by (intro that)
qed

lemma generateChallenge_inv:
  assumes inv: "base_inv s" and m: "moduleState s = Challenge"
  shows "module_inv (fst (generateChallenge s))"
proof -
  obtain ch r2 where ch_len: "list_all (\<lambda>g. length g = 9) ch" "length ch \<le> stageTotal"
    and ok2: "rng_ok r2" and ch_ne: "ch = [] \<longleftrightarrow> rule s = None"
    and gc: "generateChallenge s =
       (if ch = [] then (s\<lparr>challenge := ch, rnd := r2\<rparr>, Some TypeError)
        else (setDisplayGrid (ch ! 0) (s\<lparr>challenge := ch, rnd := r2\<rparr>)\<lparr>stageNumber := 0\<rparr>, None))"
    using generateChallenge_shape [OF inv] by blast
  define s1 where "s1 = s\<lparr>challenge := ch, rnd := r2\<rparr>"
  have b1: "base_inv s1" using inv ok2 ch_len by (simp add: s1_def base_inv_def)
  show ?thesis
  proof (cases "ch = []")
    case True
    with gc b1 ch_ne show ?thesis by (simp add: module_inv_def s1_def)
  next
    case False
    have "length (ch ! 0) = 9" using ch_len(1) False by (simp add: list_all_iff)
    moreover have "length (grid s1) = 9" using b1 by (simp add: base_inv_def)
    ultimately show ?thesis using gc False m b1
      by (simp add: module_inv_def setDisplayGrid_grid s1_def)
  qed
qed

lemma setModuleState_inv:
  "base_inv s \<Longrightarrow> module_inv (fst (setModuleState m s))"
proof (cases "m = Challenge")
  case True
  assume "base_inv s"
  then have "base_inv (s\<lparr>moduleState := Challenge\<rparr>)" by simp
  from generateChallenge_inv [OF this] True show ?thesis by (simp add: setModuleState_def)
next
  case False
  assume "base_inv s"
  then have "base_inv (s\<lparr>moduleState := m\<rparr>)" by simp
  with False show ?thesis by (simp add: setModuleState_def module_inv_def)
qed

lemma base_inv_rnd: "base_inv s \<Longrightarrow> rng_ok r \<Longrightarrow> base_inv (s\<lparr>rnd := r\<rparr>)"
  by (simp add: base_inv_def)

lemma resetModule_inv:
  assumes inv: "module_inv s"
  shows "module_inv (fst (resetModule s))"
proof -
  have b: "base_inv s" and ok: "rng_ok (rnd s)" using inv by (simp_all add: module_inv_def base_inv_def)
  from randomRule_cases [OF ok] show ?thesis
  proof (elim disjE exE conjE)
    fix c assume "randomRule (rnd s) = Inl (NoValidChoices c)"
    with inv show ?thesis by (simp add: resetModule_def)
  next
    fix ru r1 assume rr: "randomRule (rnd s) = Inr (ru, r1)" and ru: "inst_ok Rule ru" and ok1: "rng_ok r1"
    define s1 where "s1 = s\<lparr>rule := Some ru, brushColor := 0, brushShape := 0, brushErase := False,
                      rnd := r1\<rparr>"
    have b1: "base_inv s1" using b ru ok1 by (simp add: s1_def base_inv_def)
    obtain ex r2 where ge: "generateExamples (Some ru) 1 0 r1 = Some (ex, r2)" and ok2: "rng_ok r2"
      using generateExamples_ok [of r1 "Some ru" 1 0] ok1 ru by auto
    have "base_inv (setDisplayGrid (if length ex = 1 then ex ! 0 else empty_grid) (s1\<lparr>rnd := r2\<rparr>))"
      using base_inv_rnd [OF b1 ok2] by simp
    from setModuleState_inv [OF this, of Edit] rr ge show ?thesis
      by (simp add: resetModule_def s1_def Let_def)
  qed
qed

lemma show_example_inv:
  assumes inv: "module_inv s" and m: "moduleState s \<noteq> Challenge"
  shows "module_inv (fst (show_example vc ic s))"
proof -
  have b: "base_inv s" and ok: "rng_ok (rnd s)"
    and ru: "case rule s of None \<Rightarrow> True | Some x \<Rightarrow> inst_ok Rule x"
    using inv by (simp_all add: module_inv_def base_inv_def)
  obtain ex r1 where ge: "generateExamples (rule s) vc ic (rnd s) = Some (ex, r1)" and ok1: "rng_ok r1"
    using generateExamples_ok [OF ok ru, of vc ic] by auto
  have "base_inv (s\<lparr>rnd := r1\<rparr>)" by (rule base_inv_rnd [OF b ok1])
  then show ?thesis using ge m by (simp add: show_example_def module_inv_def)
qed

lemma challenge_answer_inv:
  assumes inv: "module_inv s" and m: "moduleState s = Challenge"
  shows "module_inv (fst (let s1 = s\<lparr>stageNumber := Suc (stageNumber s)\<rparr>
                          in if stageNumber s1 < length (challenge s1)
                             then (setDisplayGrid (challenge s1 ! stageNumber s1) s1, None)
                             else setModuleState Solved s1))"
proof (cases "Suc (stageNumber s) < length (challenge s)")
  case True
  have b: "base_inv s" using inv by (simp add: module_inv_def)
  then have "length (challenge s ! Suc (stageNumber s)) = 9" "length (grid s) = 9"
    using True by (simp_all add: base_inv_def list_all_iff)
  with True b m show ?thesis by (simp add: module_inv_def setDisplayGrid_grid)
next
  case False
  have "base_inv (s\<lparr>stageNumber := Suc (stageNumber s)\<rparr>)" using inv by (simp add: module_inv_def)
  from setModuleState_inv [OF this, of Solved] False show ?thesis by simp
qed

lemma buttonPress_inv:
  assumes inv: "module_inv s"
  shows "module_inv (fst (buttonPress b s))"
proof -
  have base: "base_inv s" using inv by (simp add: module_inv_def)
  show ?thesis
  proof (cases "moduleState s = Challenge")
    case m: True
    show ?thesis
    proof (cases "b = BtnReady")
      case True
      with m setModuleState_inv [OF base, of Edit] show ?thesis by (simp add: buttonPress_def)
    next
      case False
      show ?thesis
      proof (cases "rule s")
        case None
        with m False inv show ?thesis by (simp add: buttonPress_def)
      next
        case (Some ru)
        show ?thesis
        proof (cases "imatch ru (grid s) Undef")
          case None
          with m False inv \<open>rule s = Some ru\<close> show ?thesis by (simp add: buttonPress_def)
        next
          case (Some actual)
          with m False \<open>rule s = Some ru\<close> challenge_answer_inv [OF inv m]
            setModuleState_inv [OF base, of Failed]
          show ?thesis by (simp add: buttonPress_def Let_def)
        qed
      qed
    qed
  next
    case m: False
    show ?thesis
    proof (cases b)
      case BtnY
      with m show ?thesis using show_example_inv [OF inv m] by (simp add: buttonPress_def)
    next
      case BtnN
      with m show ?thesis using show_example_inv [OF inv m] by (simp add: buttonPress_def)
    next
      case BtnReady
      with m show ?thesis using setModuleState_inv [OF base] resetModule_inv [OF inv]
        by (simp add: buttonPress_def)
    qed
  qed
qed

lemma erasePress_inv: "module_inv s \<Longrightarrow> module_inv (erasePress s)"
  by (auto simp: erasePress_def module_inv_def)

text \<open>The clamped cell coordinate of a click: between 0 and 2, the cell of the pointer
  position clamped to the canvas.\<close>

lemma clamp_cell_bounds:
  "0 \<le> clamp_cell x \<and> clamp_cell x \<le> 2 \<and>
   of_int (clamp_cell x) \<le> max 0 (min (3 * x) 2) \<and> max 0 (min (3 * x) 2) < of_int (clamp_cell x) + 1"
proof -
  have "of_int \<lfloor>x * 3\<rfloor> \<le> x * 3" "x * 3 < of_int \<lfloor>x * 3\<rfloor> + 1" by linarith+
  then show ?thesis by (simp add: clamp_cell_def min_def max_def) linarith
qed

lemma gridOnClick_grid:
  "length (grid s) = 9 \<Longrightarrow> moduleState s \<noteq> Challenge \<Longrightarrow>
   grid (gridOnClick x y s) = (grid s)[nat (clamp_cell x) + 3 * nat (clamp_cell y) :=
      (if brushErase s then None else Some \<lparr>color = brushColor s, shape = brushShape s\<rparr>)]"
proof -
  assume len: "length (grid s) = 9" and m: "moduleState s \<noteq> Challenge"
  have c: "0 \<le> clamp_cell x" "clamp_cell x \<le> 2" and r: "0 \<le> clamp_cell y" "clamp_cell y \<le> 2"
    using clamp_cell_bounds [of x] clamp_cell_bounds [of y] by auto
  then have "0 \<le> clamp_cell x + clamp_cell y * 3" "nat (clamp_cell x + clamp_cell y * 3) < length (grid s)"
    and "nat (clamp_cell x + clamp_cell y * 3) = nat (clamp_cell x) + 3 * nat (clamp_cell y)"
    using len by linarith+
  with m show ?thesis by (simp add: gridOnClick_def Let_def)
qed

lemma gridOnClick_fields [simp]:
  "rule (gridOnClick x y s) = rule s" "rnd (gridOnClick x y s) = rnd s"
  "challenge (gridOnClick x y s) = challenge s" "moduleState (gridOnClick x y s) = moduleState s"
  "stageNumber (gridOnClick x y s) = stageNumber s"
  by (simp_all add: gridOnClick_def Let_def)

lemma gridOnClick_inv: "module_inv s \<Longrightarrow> module_inv (gridOnClick x y s)"
proof -
  assume inv: "module_inv s"
  show ?thesis
  proof (cases "moduleState s = Challenge")
    case True
    with inv show ?thesis by (simp add: gridOnClick_def)
  next
    case False
    with inv show ?thesis
      by (simp add: gridOnClick_grid module_inv_def base_inv_def)
  qed
qed

lemma setColor_inv: "module_inv s \<Longrightarrow> module_inv (setColor c s)"
  by (simp add: setColor_def module_inv_def)

lemma setShape_inv: "module_inv s \<Longrightarrow> module_inv (setShape c s)"
  by (simp add: setShape_def module_inv_def)

lemmas handler_inv = resetModule_inv buttonPress_inv erasePress_inv gridOnClick_inv
  setColor_inv setShape_inv

lemma step_inv: "module_inv s \<Longrightarrow> module_inv (fst (step s e))"
  by (cases e) (simp_all add: handler_inv)

lemma run_inv: "module_inv s \<Longrightarrow> module_inv (run s es)"
  by (induction es arbitrary: s) (simp_all add: step_inv)

lemma initial_state_inv: "rng_ok r \<Longrightarrow> module_inv (initial_state r)"
  by (simp add: initial_state_def module_inv_def base_inv_def)

section \<open>Properties of the module\<close>

text \<open>C1: in every state the module reaches from loading the page (\<open>resetModule()\<close>
  on the initial globals) through any sequence of handler calls, including calls that
  throw, the grid has 9 cells, the rule (if any) is well typed, and in challenge mode
  with a rule the stage number points into the challenge and the grid shown is the
  current stage's grid.\<close>

theorem module_reachable_inv:
  assumes ok: "rng_ok r"
  shows "module_inv (run (fst (boot r)) es)"
proof -
  have "module_inv (fst (boot r))"
    unfolding boot_def by (rule resetModule_inv [OF initial_state_inv [OF ok]])
  then show ?thesis by (rule run_inv)
qed

theorem module_reachable_inv_witness:
  "module_inv (run (fst (boot (const_rng (1 / 2)))) [ButtonPress BtnReady, ButtonPress BtnY])"
  by (rule module_reachable_inv) simp

text \<open>C10: a challenge is solved only by a correct answer to its last grid: a button press
  that does not throw and moves the module into the solved state was a Y or N answer in
  challenge mode, equal to the rule's verdict on the shown grid, at the last stage.\<close>

theorem solved_only_by_last_answer:
  assumes inv: "module_inv s" and press: "buttonPress b s = (s', None)"
    and before: "moduleState s \<noteq> Solved" and after: "moduleState s' = Solved"
  shows "moduleState s = Challenge \<and> b \<noteq> BtnReady \<and>
         (\<exists>ru. rule s = Some ru \<and> imatch ru (grid s) Undef = Some (VBool (b = BtnY))) \<and>
         Suc (stageNumber s) = length (challenge s)"
proof (cases "moduleState s = Challenge")
  case m: False
  have "moduleState (fst (resetModule s)) \<noteq> Solved"
    by (auto simp: resetModule_def setModuleState_def Let_def before
        split: sum.splits prod.splits option.splits)
  moreover have "moduleState (fst (show_example vc ic s)) = moduleState s" for vc ic
    by (auto simp: show_example_def split: option.splits prod.splits)
  moreover have "moduleState (fst (generateChallenge (s\<lparr>moduleState := Challenge\<rparr>))) = Challenge"
    by (auto simp: generateChallenge_def Let_def split: option.splits prod.splits)
  moreover have "s' = fst (buttonPress b s)" using press by simp
  ultimately show ?thesis using m after before
    by (cases b) (auto simp: buttonPress_def setModuleState_def split: if_splits)
next
  case m: True
  have b: "b \<noteq> BtnReady"
    using m press after by (auto simp: buttonPress_def setModuleState_def)
  obtain ru actual where ru: "rule s = Some ru" and act: "imatch ru (grid s) Undef = Some actual"
    using m b press by (auto simp: buttonPress_def split: option.splits)
  have eq: "loose_eq_bool (b = BtnY) actual"
    using m b press after ru act by (auto simp: buttonPress_def setModuleState_def Let_def split: if_splits)
  then have "actual = VBool (b = BtnY)" by (cases actual) auto
  moreover have "\<not> Suc (stageNumber s) < length (challenge s)"
    using m b press after ru act eq by (auto simp: buttonPress_def Let_def)
  moreover have "stageNumber s < length (challenge s)"
    using inv m ru by (simp add: module_inv_def)
  ultimately show ?thesis using m b ru act by auto
qed

theorem solved_only_by_last_answer_witness:
  "\<exists>s. module_inv s \<and> buttonPress BtnY s = (s\<lparr>stageNumber := 1, moduleState := Solved\<rparr>, None) \<and>
     moduleState s \<noteq> Solved \<and> Suc (stageNumber s) = length (challenge s)"
proof -
  define s where "s = \<lparr>grid = empty_grid, rule = Some red_circle_rule, brushColor = 0, brushShape = 0,
     brushErase = False, moduleState = Challenge, stageNumber = 0, challenge = [empty_grid],
     rnd = const_rng (1 / 2)\<rparr>"
  have inv: "module_inv s"
    by (simp add: s_def module_inv_def base_inv_def red_circle_rule_def stageTotal_def)
  have press: "buttonPress BtnY s = (s\<lparr>stageNumber := 1, moduleState := Solved\<rparr>, None)"
    by (simp add: s_def buttonPress_def setModuleState_def red_circle_rule_def empty_grid_def
        call_bool_def indices_def upt_rec js_simps cell_def)
  from solved_only_by_last_answer [OF inv press] have "Suc (stageNumber s) = length (challenge s)"
    by (simp add: s_def)
  with inv press show ?thesis by (intro exI [of _ s]) (simp add: s_def)
qed

text \<open>C13: entering challenge mode from a state with a valid random source and a
  well-typed rule or none throws a \<open>TypeError\<close> exactly when there is no rule. With
  no rule, \<open>generateExamples\<close> returns no grid, and \<open>setDisplayGrid(challenge[0])\<close>
  reads the cells of \<open>undefined\<close>; with a rule, the challenge is never empty. There is
  no rule after a page load whose \<open>randomRule()\<close> threw (theory Generator shows
  every draw 0 makes it throw).\<close>

theorem no_rule_challenge_crash:
  assumes "base_inv s"
  shows "snd (setModuleState Challenge s) = Some TypeError \<longleftrightarrow> rule s = None"
proof -
  define t where "t = s\<lparr>moduleState := Challenge\<rparr>"
  have bt: "base_inv t" using assms by (simp add: t_def)
  obtain ch r2 where "list_all (\<lambda>g. length g = 9) ch" "length ch \<le> stageTotal" "rng_ok r2"
    and iff: "ch = [] \<longleftrightarrow> rule t = None"
    and gc: "generateChallenge t =
       (if ch = [] then (t\<lparr>challenge := ch, rnd := r2\<rparr>, Some TypeError)
        else (setDisplayGrid (ch ! 0) (t\<lparr>challenge := ch, rnd := r2\<rparr>)\<lparr>stageNumber := 0\<rparr>, None))"
    using generateChallenge_shape [OF bt] by blast
  have sm: "setModuleState Challenge s = generateChallenge t" by (simp add: setModuleState_def t_def)
  have rt: "rule t = rule s" by (simp add: t_def)
  show ?thesis
  proof (cases "ch = []")
    case True
    then show ?thesis using iff gc sm rt by simp
  next
    case False
    then show ?thesis using iff gc sm rt by simp
  qed
qed

theorem no_rule_challenge_crash_witness:
  "snd (setModuleState Challenge (initial_state (const_rng 0))) = Some TypeError \<and>
   snd (setModuleState Challenge (initial_state (const_rng 0)\<lparr>rule := Some red_circle_rule\<rparr>)) \<noteq> Some TypeError"
proof -
  have b0: "base_inv (initial_state (const_rng 0))"
    by (simp add: initial_state_def base_inv_def)
  have b1: "base_inv (initial_state (const_rng 0)\<lparr>rule := Some red_circle_rule\<rparr>)"
    by (simp add: initial_state_def base_inv_def red_circle_rule_def children_of_def)
  show ?thesis
    using no_rule_challenge_crash [OF b0] no_rule_challenge_crash [OF b1]
    by (simp add: initial_state_def)
qed

text \<open>C16: \<open>shuffleArray\<close> permutes: with draws in [0, 1) every swap index lies in the
  array, and the result has the same elements with the same multiplicities.\<close>

theorem shuffleArray_mset:
  "rng_ok r \<Longrightarrow> shuffleArray a r = (b, r') \<Longrightarrow> mset b = mset a \<and> rng_ok r'"
  unfolding shuffleArray_def by (rule shuffle_loop_mset)

theorem shuffleArray_mset_witness:
  "mset (fst (shuffleArray [1, 2, 3 :: nat] (const_rng (1 / 2)))) = mset [1, 2, 3]"
  using shuffleArray_mset [of "const_rng (1 / 2)" "[1, 2, 3 :: nat]"
      "fst (shuffleArray [1, 2, 3 :: nat] (const_rng (1 / 2)))"
      "snd (shuffleArray [1, 2, 3 :: nat] (const_rng (1 / 2)))"]
  by simp

text \<open>C19: a click anywhere, even outside the canvas, writes the brush (a symbol, or
  \<open>null\<close> when erasing) into exactly the cell under the pointer position clamped to
  the canvas, column \<open>c\<close> and row \<open>r\<close>, and leaves the other eight cells alone;
  in challenge mode the grid does not change.\<close>

theorem gridOnClick_cell:
  assumes "length (grid s) = 9"
  shows "\<exists>c r. c < 3 \<and> r < 3 \<and>
    real c \<le> max 0 (min (3 * x) 2) \<and> max 0 (min (3 * x) 2) < real c + 1 \<and>
    real r \<le> max 0 (min (3 * y) 2) \<and> max 0 (min (3 * y) 2) < real r + 1 \<and>
    grid (gridOnClick x y s) =
      (if moduleState s = Challenge then grid s
       else (grid s)[c + 3 * r :=
              (if brushErase s then None else Some \<lparr>color = brushColor s, shape = brushShape s\<rparr>)])"
proof (intro exI conjI)
  show "nat (clamp_cell x) < 3" "nat (clamp_cell y) < 3"
    "real (nat (clamp_cell x)) \<le> max 0 (min (3 * x) 2)"
    "max 0 (min (3 * x) 2) < real (nat (clamp_cell x)) + 1"
    "real (nat (clamp_cell y)) \<le> max 0 (min (3 * y) 2)"
    "max 0 (min (3 * y) 2) < real (nat (clamp_cell y)) + 1"
    using clamp_cell_bounds [of x] clamp_cell_bounds [of y] by auto
  show "grid (gridOnClick x y s) =
      (if moduleState s = Challenge then grid s
       else (grid s)[nat (clamp_cell x) + 3 * nat (clamp_cell y) :=
              (if brushErase s then None else Some \<lparr>color = brushColor s, shape = brushShape s\<rparr>)])"
    using assms by (simp add: gridOnClick_grid) (simp add: gridOnClick_def)
qed

theorem gridOnClick_cell_witness:
  "grid (gridOnClick (- 1) (1 / 2) (initial_state (const_rng 0))) = empty_grid[3 := Some \<lparr>color = 0, shape = 0\<rparr>]"
proof -
  obtain c r where cr: "c < 3" "r < 3" "real c \<le> max 0 (min (3 * (- 1)) 2)"
    "max 0 (min (3 * (- 1)) 2) < real c + 1" "real r \<le> max 0 (min (3 * (1 / 2)) 2)"
    "max 0 (min (3 * (1 / 2)) (2::real)) < real r + 1"
    and g: "grid (gridOnClick (- 1) (1 / 2) (initial_state (const_rng 0))) =
      (if moduleState (initial_state (const_rng 0)) = Challenge then grid (initial_state (const_rng 0))
       else (grid (initial_state (const_rng 0)))[c + 3 * r :=
          (if brushErase (initial_state (const_rng 0)) then None
           else Some \<lparr>color = brushColor (initial_state (const_rng 0)), shape = brushShape (initial_state (const_rng 0))\<rparr>)])"
    using gridOnClick_cell [of "initial_state (const_rng 0)" "- 1" "1 / 2"]
    by (auto simp: initial_state_def)
  have "c = 0" "r = 1" using cr by simp_all
  with g show ?thesis by (simp add: initial_state_def)
qed

text \<open>C11: in every state satisfying the invariant (so in every reachable state)
  \<open>refreshDisplay\<close> does not throw; it shows the rule's description only when the
  "show rule" box is ticked or the module is solved or failed, and outside challenge
  mode it highlights Y exactly when the rule holds on the grid shown.\<close>

theorem refreshDisplay_sound:
  assumes inv: "module_inv s" and ru: "rule s = Some ru"
  shows "\<exists>p'. refreshDisplay showRule s p = Some p' \<and>
           ruleString p' = (if showRule \<or> moduleState s = Solved \<or> moduleState s = Failed
                            then ''Rule: '' @ idescS ru else ''Rule: ?'') \<and>
           (moduleState s \<noteq> Challenge \<longrightarrow>
              yesHighlight p' = (imatch ru (grid s) Undef = Some (VBool True)))"
proof -
  have "inst_ok Rule ru" "length (grid s) = 9"
    using inv ru by (simp_all add: module_inv_def base_inv_def)
  from imatch_Rule [OF this] obtain b where b: "imatch ru (grid s) Undef = Some (VBool b)" by blast
  show ?thesis
    using ru b by (simp add: refreshDisplay_def Let_def)
qed

theorem refreshDisplay_sound_witness:
  "\<exists>p'. refreshDisplay False (initial_state (const_rng 0)\<lparr>rule := Some red_circle_rule\<rparr>)
          (page.make '''' '''' False False False LightOff) = Some p' \<and>
        ruleString p' = ''Rule: ?'' \<and> yesHighlight p' = True"
proof -
  let ?s = "initial_state (const_rng 0)\<lparr>rule := Some red_circle_rule\<rparr>"
  have inv: "module_inv ?s"
    by (simp add: initial_state_def module_inv_def base_inv_def red_circle_rule_def empty_grid_def
        stageTotal_def)
  have "imatch red_circle_rule (grid ?s) Undef = Some (VBool True)"
    by (simp add: initial_state_def red_circle_rule_def empty_grid_def call_bool_def indices_def
        upt_rec js_simps cell_def)
  with refreshDisplay_sound [OF inv, of red_circle_rule False "page.make '''' '''' False False False LightOff"]
  show ?thesis by (simp add: initial_state_def)
qed

end
