(* ===== verification/Tags.thy ===== *)
theory Tags
  imports Instantiate
begin

text \<open>
  Properties of the fragment generator across whole skeletons
  (src/js/zendo-prototype.js, \<open>randomRuleFragmentOfType\<close>, lines 361--445), stated over
  \<open>nodes\<close>, the list of all nodes of a skeleton, and \<open>entry_of\<close>, the table entry a node
  names. The lemmas show that every chosen entry is \<open>eligible\<close> (no active tag, a
  \<open>match\<close> function, positive weight), that the adjacency predicate's child never
  carries a position tag, and that generation, and so \<open>randomRule\<close>, never throws when
  no draw of the source is 0.
\<close>

fun nodes :: "skel \<Rightarrow> skel list" where
  "nodes (Skel t k kids a) = Skel t k kids a # concat (map nodes kids)"

definition eligible :: "tag set \<Rightarrow> template \<Rightarrow> bool" where
  "eligible ts e \<longleftrightarrow> \<not> conflicts e ts \<and> match e \<noteq> None \<and> 0 < weight_of e"

definition entry_of :: "skel \<Rightarrow> template" where
  "entry_of n = ruleDict (stype n) ! sindex n"

text \<open>A source whose draws all lie in the open interval (0, 1): \<open>Math.random()\<close>
  never returning 0.\<close>

definition rng_pos :: "rng \<Rightarrow> bool" where
  "rng_pos r \<longleftrightarrow> (\<forall>k. 0 < src r k \<and> src r k < 1)"

section \<open>Lemmas\<close>

lemma gen_Inr_skel:
  assumes "gen c ts r = Inr (sk, ts', r')"
  shows "\<exists>k e r1 kids r2 a. pick_loop ts 0 (ruleDict c) None 0 r = (Some (k, e), r1) \<and>
    gen_children (separateTags e) (children_of e) (ts \<union> set (tags_of e)) r1 = Inr (kids, ts', r2) \<and>
    sk = Skel c k kids a"
proof -
  from gen_Inr_cases [OF assms] obtain k e r1 kids r2 where
    p: "pick_loop ts 0 (ruleDict c) None 0 r = (Some (k, e), r1)" and
    g: "gen_children (separateTags e) (children_of e) (ts \<union> set (tags_of e)) r1 = Inr (kids, ts', r2)" and
    n: "attribute e = None \<longrightarrow> sk = Skel c k kids 0 \<and> r' = r2" and
    s: "\<forall>attrs. attribute e = Some attrs \<longrightarrow> (\<exists>a. rand_below (length attrs) r2 = (a, r') \<and> sk = Skel c k kids a)"
    by auto
  have "\<exists>a. sk = Skel c k kids a" using n s by (cases "attribute e") auto
  with p g show ?thesis by blast
qed

lemma gen_choice:
  assumes ok: "rng_ok r" and g: "gen c ts r = Inr (sk, ts', r')"
  shows "stype sk = c \<and> sindex sk < length (ruleDict c) \<and> eligible ts (entry_of sk)"
proof -
  from gen_Inr_skel [OF g] obtain k e r1 kids r2 a where
    p: "pick_loop ts 0 (ruleDict c) None 0 r = (Some (k, e), r1)" and sk: "sk = Skel c k kids a"
    by blast
  from pick_loop_sound [OF ok _ p] have "k < length (ruleDict c) \<and> ruleDict c ! k = e \<and> eligible ts e"
    by (auto simp: eligible_def)
  with sk show ?thesis by (simp add: entry_of_def)
qed

lemma gen_nodes_eligible:
  "gen c ts r = Inr (sk, ts', r') \<Longrightarrow> rng_ok r \<Longrightarrow>
     list_all (\<lambda>n. match (entry_of n) \<noteq> None \<and> 0 < weight_of (entry_of n)) (nodes sk)"
  "gen_children sep cs ts r = Inr (ks, ts', r') \<Longrightarrow> rng_ok r \<Longrightarrow>
     list_all (\<lambda>n. match (entry_of n) \<noteq> None \<and> 0 < weight_of (entry_of n)) (concat (map nodes ks))"
proof (induction c ts r and sep cs ts r arbitrary: sk ts' r' and ks ts' r'
       rule: gen_gen_children.induct)
  case (1 c ts r)
  from gen_Inr_skel [OF "1.prems"(1)] obtain k e r1 kids r2 a where
    p: "pick_loop ts 0 (ruleDict c) None 0 r = (Some (k, e), r1)" and
    g: "gen_children (separateTags e) (children_of e) (ts \<union> set (tags_of e)) r1 = Inr (kids, ts', r2)" and
    sk: "sk = Skel c k kids a"
    by blast
  from pick_loop_sound [OF "1.prems"(2) _ p] have ok1: "rng_ok r1"
    and ke: "k < length (ruleDict c)" "ruleDict c ! k = e" "match e \<noteq> None" "0 < weight_of e"
    by auto
  have "list_all (\<lambda>n. match (entry_of n) \<noteq> None \<and> 0 < weight_of (entry_of n)) (concat (map nodes kids))"
    using "1.IH" [OF p [symmetric] refl refl g ok1] .
  with ke sk show ?case by (simp add: entry_of_def)
next
  case (2 sep ts r)
  then show ?case by simp
next
  case (3 sep c cs ts r)
  from "3.prems"(1) obtain k ts1 r1 ks' where
    g: "gen c (child_tags sep ts) r = Inr (k, ts1, r1)" and
    gs: "gen_children sep cs (if sep then ts else ts1) r1 = Inr (ks', ts', r')" and
    ks: "ks = k # ks'"
    by (rule gen_children_Cons_InrE)
  from gen_skel_ok(1) [OF g "3.prems"(2)] have ok1: "rng_ok r1" by simp
  from "3.IH"(1) [OF g "3.prems"(2)] "3.IH"(2) [OF g refl refl gs ok1] ks show ?case by simp
qed

subsection \<open>Generation succeeds when no draw is 0\<close>

text \<open>With positive draws the first eligible entry of positive weight is always taken
  (\<open>x * w > 0\<close>), so the selection fails only if no entry is eligible. Every tag set
  that arises leaves an eligible entry: a rule starts from no tags, a noun adds at most
  colour and shape or position alone, and the adjacency predicate's child starts from
  \<open>{position}\<close>.\<close>
lemma rng_pos_ok: "rng_pos r \<Longrightarrow> rng_ok r"
  by (auto simp: rng_pos_def rng_ok_def less_imp_le)

lemma rng_pos_src: "src r' = src r \<Longrightarrow> rng_pos r' = rng_pos r"
  by (simp add: rng_pos_def)

lemma rng_pos_draw: "rng_pos r \<Longrightarrow> 0 < fst (random r)"
  by (simp add: rng_pos_def random_def)

lemma pick_loop_src: "src (snd (pick_loop ts i es ch w r)) = src r"
  by (induction ts i es ch w r rule: pick_loop.induct) (auto simp: Let_def random_def split: prod.splits)

lemma pick_loop_Some:
  "rng_pos r \<Longrightarrow> (ch = None \<longrightarrow> w = 0) \<Longrightarrow> ch \<noteq> None \<or> (\<exists>e\<in>set es. eligible ts e) \<Longrightarrow>
   \<exists>k e r'. pick_loop ts i es ch w r = (Some (k, e), r')"
proof (induction es arbitrary: i ch w r)
  case Nil
  then show ?case by auto
next
  case (Cons e es)
  show ?case
  proof (cases "conflicts e ts \<or> match e = None")
    case True
    then have eq: "pick_loop ts i (e # es) ch w r = pick_loop ts (Suc i) es ch w r" by auto
    from True Cons.prems(3) have "ch \<noteq> None \<or> (\<exists>e\<in>set es. eligible ts e)"
      by (auto simp: eligible_def)
    with Cons.IH [OF Cons.prems(1,2)] eq show ?thesis by simp
  next
    case False
    obtain x r1 where xr: "random r = (x, r1)" by fastforce
    have x: "0 < x" using rng_pos_draw [OF Cons.prems(1)] xr by simp
    have pos1: "rng_pos r1" using Cons.prems(1) xr rng_pos_src [of r1 r] random_src [of r] by simp
    define nw where "nw = w + real (weight_of e)"
    have eq: "pick_loop ts i (e # es) ch w r =
        pick_loop ts (Suc i) es (if x * nw > w then Some (i, e) else ch) nw r1"
      using False xr by (auto simp: nw_def Let_def)
    show ?thesis
    proof (cases "x * nw > w")
      case True
      with Cons.IH [OF pos1, of "Some (i, e)" nw] eq show ?thesis by simp
    next
      case notch: False
      have "ch = None \<longrightarrow> nw = 0"
      proof
        assume "ch = None"
        with Cons.prems(2) have "w = 0" by simp
        with notch x have "nw \<le> 0" by (metis mult_pos_pos not_le)
        then show "nw = 0" using \<open>w = 0\<close> by (simp add: nw_def)
      qed
      moreover have "ch \<noteq> None \<or> (\<exists>e\<in>set es. eligible ts e)"
      proof (cases "ch = None")
        case True
        with \<open>ch = None \<longrightarrow> nw = 0\<close> Cons.prems(2) have "weight_of e = 0" by (simp add: nw_def)
        with True Cons.prems(3) show ?thesis by (auto simp: eligible_def)
      qed simp
      ultimately show ?thesis using Cons.IH [OF pos1, of ch nw] eq notch by simp
    qed
  qed
qed

lemma gen_Inr_intro:
  assumes p: "pick_loop ts 0 (ruleDict c) None 0 r = (Some (k, e), r1)"
    and g: "gen_children (separateTags e) (children_of e) (ts \<union> set (tags_of e)) r1 = Inr (kids, ts2, r2)"
  shows "\<exists>sk r'. gen c ts r = Inr (sk, ts2, r') \<and> src r' = src r2"
proof (cases "attribute e")
  case None
  with p g show ?thesis by simp
next
  case (Some attrs)
  obtain a r3 where ar: "rand_below (length attrs) r2 = (a, r3)" by fastforce
  then have "src r3 = src r2" using random_src [of r2] rand_below_rng [of "length attrs" r2] by simp
  with Some p g ar show ?thesis by simp
qed

lemma pick_loop_pos:
  assumes pos: "rng_pos r" and el: "\<exists>e\<in>set (ruleDict c). eligible ts e"
  shows "\<exists>k e r1. pick_loop ts 0 (ruleDict c) None 0 r = (Some (k, e), r1) \<and>
           e \<in> set (ruleDict c) \<and> rng_pos r1"
proof -
  have "\<exists>k e r1. pick_loop ts 0 (ruleDict c) None 0 r = (Some (k, e), r1)"
    by (rule pick_loop_Some [OF pos]) (use el in auto)
  then obtain k e r1 where p: "pick_loop ts 0 (ruleDict c) None 0 r = (Some (k, e), r1)"
    by blast
  from pick_loop_sound [OF rng_pos_ok [OF pos] _ p] have "k < length (ruleDict c)" "ruleDict c ! k = e"
    by auto
  then have "e \<in> set (ruleDict c)" by auto
  moreover have "rng_pos r1"
    using pick_loop_src [of ts 0 "ruleDict c" None 0 r] p pos rng_pos_src [of r1 r] by simp
  ultimately show ?thesis using p by blast
qed

lemma gen_leaf:
  assumes pos: "rng_pos r" and leaf: "\<forall>e\<in>set (ruleDict c). children_of e = []"
    and el: "\<exists>e\<in>set (ruleDict c). eligible ts e"
  shows "\<exists>sk ts' r'. gen c ts r = Inr (sk, ts', r') \<and> rng_pos r' \<and>
           (\<exists>e\<in>set (ruleDict c). ts' = ts \<union> set (tags_of e))"
proof -
  obtain k e r1 where p: "pick_loop ts 0 (ruleDict c) None 0 r = (Some (k, e), r1)"
    and e: "e \<in> set (ruleDict c)" and pos1: "rng_pos r1"
    using pick_loop_pos [OF pos el] by blast
  have "gen_children (separateTags e) (children_of e) (ts \<union> set (tags_of e)) r1 =
        Inr ([], ts \<union> set (tags_of e), r1)"
    using leaf e by simp
  from gen_Inr_intro [OF p this] obtain sk r' where
    "gen c ts r = Inr (sk, ts \<union> set (tags_of e), r')" "src r' = src r1" by blast
  with pos1 e rng_pos_src [of r' r1] show ?thesis by blast
qed

lemma table_liveness:
  "\<forall>e\<in>set (ruleDict Noun). children_of e = []"
  "\<forall>e\<in>set (ruleDict Group). children_of e = []"
  "\<forall>e\<in>set (ruleDict GroupPred). children_of e = []"
  "Position \<notin> ts \<Longrightarrow> \<exists>e\<in>set (ruleDict Noun). eligible ts e"
  "Color \<notin> ts \<Longrightarrow> \<exists>e\<in>set (ruleDict Noun). eligible ts e"
  "\<exists>e\<in>set (ruleDict Group). eligible {} e"
  "\<exists>e\<in>set (ruleDict Rule). eligible {} e"
  "\<forall>e\<in>set (ruleDict Noun). \<exists>e'\<in>set (ruleDict NounPred). eligible (set (tags_of e)) e'"
  "\<forall>e\<in>set (ruleDict Group). \<exists>e'\<in>set (ruleDict GroupPred). eligible (set (tags_of e)) e'"
  "\<forall>e\<in>set (ruleDict NounPred). children_of e = [] \<or> (children_of e = [Noun] \<and> separateTags e)"
  "\<forall>e\<in>set (ruleDict Rule). \<not> separateTags e \<and>
     ((children_of e = [Noun, NounPred] \<and> tags_of e = []) \<or>
      (children_of e = [Group, GroupPred] \<and> tags_of e = []) \<or>
      (children_of e = [Noun] \<and> tags_of e = [Position]))"
  by (auto simp: table_defs children_of_def tags_of_def eligible_def conflicts_def weight_of_def)

lemma gen_NounPred_ok:
  assumes pos: "rng_pos r" and el: "\<exists>e\<in>set (ruleDict NounPred). eligible ts e"
  shows "\<exists>sk ts' r'. gen NounPred ts r = Inr (sk, ts', r') \<and> rng_pos r'"
proof -
  obtain k e r1 where p: "pick_loop ts 0 (ruleDict NounPred) None 0 r = (Some (k, e), r1)"
    and e: "e \<in> set (ruleDict NounPred)" and pos1: "rng_pos r1"
    using pick_loop_pos [OF pos el] by blast
  let ?ts = "ts \<union> set (tags_of e)"
  have "\<exists>kids ts2 r2. gen_children (separateTags e) (children_of e) ?ts r1 = Inr (kids, ts2, r2) \<and> rng_pos r2"
  proof (cases "children_of e = []")
    case True
    with pos1 show ?thesis by simp
  next
    case False
    with table_liveness(10) e have ch: "children_of e = [Noun]" "separateTags e" by auto
    have "Color \<notin> child_tags True ?ts" by (simp add: child_tags_def)
    from gen_leaf [OF pos1 table_liveness(1) table_liveness(5) [OF this]] obtain kid ts1 r2 where
      "gen Noun (child_tags True ?ts) r1 = Inr (kid, ts1, r2)" "rng_pos r2" by blast
    with ch show ?thesis by simp
  qed
  then obtain kids ts2 r2 where
    g: "gen_children (separateTags e) (children_of e) ?ts r1 = Inr (kids, ts2, r2)" and pos2: "rng_pos r2"
    by blast
  from gen_Inr_intro [OF p g] obtain sk r' where "gen NounPred ts r = Inr (sk, ts2, r')" "src r' = src r2"
    by blast
  with pos2 rng_pos_src [of r' r2] show ?thesis by blast
qed

lemma gen_Rule_ok:
  assumes pos: "rng_pos r"
  shows "\<exists>sk ts' r'. gen Rule {} r = Inr (sk, ts', r') \<and> rng_pos r'"
proof -
  obtain k e r1 where p: "pick_loop {} 0 (ruleDict Rule) None 0 r = (Some (k, e), r1)"
    and e: "e \<in> set (ruleDict Rule)" and pos1: "rng_pos r1"
    using pick_loop_pos [OF pos table_liveness(7)] by blast
  have "\<exists>kids ts2 r2. gen_children False (children_of e) (set (tags_of e)) r1 = Inr (kids, ts2, r2) \<and> rng_pos r2"
  proof -
    from table_liveness(11) e consider
      (nouns) "children_of e = [Noun, NounPred]" "tags_of e = []"
    | (groups) "children_of e = [Group, GroupPred]" "tags_of e = []"
    | (filled) "children_of e = [Noun]" "tags_of e = [Position]"
      by blast
    then show ?thesis
    proof cases
      case nouns
      from gen_leaf [OF pos1 table_liveness(1) table_liveness(4) [of "{}"]] obtain k1 ts1 r2 e1 where
        g1: "gen Noun {} r1 = Inr (k1, ts1, r2)" and pos2: "rng_pos r2"
        and e1: "e1 \<in> set (ruleDict Noun)" "ts1 = {} \<union> set (tags_of e1)" by blast
      from table_liveness(8) e1 have "\<exists>e'\<in>set (ruleDict NounPred). eligible ts1 e'" by simp
      from gen_NounPred_ok [OF pos2 this] obtain k2 ts3 r3 where
        "gen NounPred ts1 r2 = Inr (k2, ts3, r3)" "rng_pos r3" by blast
      with g1 nouns show ?thesis by (simp add: child_tags_def)
    next
      case groups
      from gen_leaf [OF pos1 table_liveness(2) table_liveness(6)] obtain k1 ts1 r2 e1 where
        g1: "gen Group {} r1 = Inr (k1, ts1, r2)" and pos2: "rng_pos r2"
        and e1: "e1 \<in> set (ruleDict Group)" "ts1 = {} \<union> set (tags_of e1)" by blast
      from table_liveness(9) e1 have "\<exists>e'\<in>set (ruleDict GroupPred). eligible ts1 e'" by simp
      from gen_leaf [OF pos2 table_liveness(3) this] obtain k2 ts3 r3 where
        "gen GroupPred ts1 r2 = Inr (k2, ts3, r3)" "rng_pos r3" by blast
      with g1 groups show ?thesis by (simp add: child_tags_def)
    next
      case filled
      have "Color \<notin> {Position}" by simp
      from gen_leaf [OF pos1 table_liveness(1) table_liveness(5) [OF this]] obtain k1 ts1 r2 where
        g1: "gen Noun {Position} r1 = Inr (k1, ts1, r2)" and pos2: "rng_pos r2" by blast
      with filled show ?thesis by (simp add: child_tags_def)
    qed
  qed
  then obtain kids ts2 r2 where
    g: "gen_children False (children_of e) (set (tags_of e)) r1 = Inr (kids, ts2, r2)" and pos2: "rng_pos r2"
    by blast
  have "\<not> separateTags e" using table_liveness(11) e by blast
  with g have g': "gen_children (separateTags e) (children_of e) ({} \<union> set (tags_of e)) r1 = Inr (kids, ts2, r2)"
    by simp
  from gen_Inr_intro [OF p g'] obtain sk r' where "gen Rule {} r = Inr (sk, ts2, r')" "src r' = src r2"
    by blast
  with pos2 rng_pos_src [of r' r2] show ?thesis by blast
qed

text \<open>C8: tag exclusion. The entry chosen for a fragment carries no tag that is
  already active: in particular a noun predicate generated while \<open>position\<close> is active
  is never one of the position-tagged entries.\<close>

theorem gen_tag_exclusion:
  assumes ok: "rng_ok r" and g: "gen c ts r = Inr (sk, ts', r')"
  shows "set (tags_of (entry_of sk)) \<inter> ts = {}"
proof -
  from gen_choice [OF ok g] have "\<not> conflicts (entry_of sk) ts" by (simp add: eligible_def)
  then show ?thesis by (auto simp: conflicts_def tags_of_def list_ex_iff split: option.splits)
qed

theorem gen_tag_exclusion_witness:
  "set (tags_of (entry_of (Skel NounPred 0 [] 1))) \<inter> {Position} = {}"
proof -
  have "gen NounPred {Position} (const_rng (1 / 2)) =
          Inr (Skel NounPred 0 [] 1, {Position, Color}, \<lparr>src = \<lambda>_. 1 / 2, pos = 3\<rparr>)"
    by (simp add: const_rng_def table_defs conflicts_def random_def weight_of_def tags_of_def
        children_of_def rand_below_def insert_commute)
  then show ?thesis by (rule gen_tag_exclusion [rotated]) simp
qed

text \<open>C9: zero-weight exclusion. Every node of a generated skeleton is an entry with a
  \<open>match\<close> function and a positive weight; in particular the entry \<open>are identical\<close>
  (group predicate 5, weight 0) never occurs in a generated rule.\<close>

theorem gen_positive_weights:
  assumes ok: "rng_ok r" and g: "gen c ts r = Inr (sk, ts', r')"
  shows "list_all (\<lambda>n. 0 < weight_of (entry_of n) \<and> \<not> (stype n = GroupPred \<and> sindex n = 5)) (nodes sk)"
proof -
  have "weight_of (groupPred_templates ! 5) = 0" by (simp add: groupPred_templates_def no_template_def weight_of_def)
  with gen_nodes_eligible(1) [OF g ok] show ?thesis
    by (auto simp: list_all_iff entry_of_def)
qed

theorem gen_positive_weights_witness:
  "list_all (\<lambda>n. 0 < weight_of (entry_of n) \<and> \<not> (stype n = GroupPred \<and> sindex n = 5))
     (nodes (Skel NounPred 0 [] 1))"
proof -
  have "gen NounPred {Position} (const_rng (1 / 2)) =
          Inr (Skel NounPred 0 [] 1, {Position, Color}, \<lparr>src = \<lambda>_. 1 / 2, pos = 3\<rparr>)"
    by (simp add: const_rng_def table_defs conflicts_def random_def weight_of_def tags_of_def
        children_of_def rand_below_def insert_commute)
  then show ?thesis by (rule gen_positive_weights [rotated]) simp
qed

text \<open>C12: the child of the adjacency predicate is never a row or column noun. The
  code tests \<open>tags.has("position")\<close> after adding the predicate's own tag
  \<open>position\<close>, so the child always starts from \<open>{position}\<close>, even when no position
  tag was active before the predicate was chosen.\<close>

theorem adjacent_child_not_positional:
  assumes ok: "rng_ok r" and g: "gen NounPred ts r = Inr (Skel NounPred 4 [kid] a, ts', r')"
  shows "stype kid = Noun \<and> sindex kid \<noteq> 2 \<and> sindex kid \<noteq> 3"
proof -
  from gen_Inr_skel [OF g] obtain k e r1 kids r2 a' where
    p: "pick_loop ts 0 (ruleDict NounPred) None 0 r = (Some (k, e), r1)" and
    gc: "gen_children (separateTags e) (children_of e) (ts \<union> set (tags_of e)) r1 = Inr (kids, ts', r2)" and
    sk: "Skel NounPred 4 [kid] a = Skel NounPred k kids a'"
    by blast
  from pick_loop_sound [OF ok _ p] sk have ok1: "rng_ok r1" and e: "e = nounPred_templates ! 4"
    by auto
  have e_fields: "separateTags e" "children_of e = [Noun]" "tags_of e = [Position]"
    by (simp_all add: e nounPred_templates_def no_template_def children_of_def tags_of_def)
  from gc sk e_fields have gc': "gen_children True [Noun] (insert Position ts) r1 = Inr ([kid], ts', r2)"
    by simp
  from gc' obtain k0 ts1 r3 ks' where
    g0: "gen Noun (child_tags True (insert Position ts)) r1 = Inr (k0, ts1, r3)" and
    ks: "[kid] = k0 # ks'"
    by (rule gen_children_Cons_InrE)
  from g0 ks have "gen Noun (child_tags True (ts \<union> {Position})) r1 = Inr (kid, ts1, r3)" by simp
  then have "gen Noun {Position} r1 = Inr (kid, ts1, r3)" by (simp add: child_tags_def)
  from gen_choice [OF ok1 this] have "stype kid = Noun" "sindex kid < 5"
    and el: "\<not> conflicts (ruleDict Noun ! sindex kid) {Position}"
    by (auto simp: eligible_def entry_of_def noun_templates_def)
  moreover have "sindex kid \<noteq> 2" "sindex kid \<noteq> 3"
    using el by (auto simp: noun_templates_def no_template_def conflicts_def)
  ultimately show ?thesis by simp
qed

theorem adjacent_child_not_positional_witness:
  "stype (Skel Noun 4 [] 0) = Noun \<and> sindex (Skel Noun 4 [] 0) \<noteq> 2 \<and> sindex (Skel Noun 4 [] 0) \<noteq> 3"
proof -
  have "gen NounPred {} (const_rng (9 / 10)) =
          Inr (Skel NounPred 4 [Skel Noun 4 [] 0] 0, {Position}, \<lparr>src = \<lambda>_. 9 / 10, pos = 8\<rparr>)"
    by (simp add: const_rng_def table_defs conflicts_def random_def weight_of_def tags_of_def
        children_of_def child_tags_def rand_below_def)
  then show ?thesis by (rule adjacent_child_not_positional [rotated]) simp
qed

text \<open>C6: when \<open>Math.random()\<close> never returns 0, \<open>randomRule()\<close> never throws: it
  returns a well-typed rule. Together with the failure on zero draws shown in theory
  Generator, this locates the failure of generation exactly at draws equal to 0.\<close>

theorem randomRule_never_fails:
  assumes pos: "rng_pos r"
  shows "\<exists>rule r'. randomRule r = Inr (rule, r') \<and> inst_ok Rule rule"
proof -
  from gen_Rule_ok [OF pos] obtain sk ts' r' where g: "gen Rule {} r = Inr (sk, ts', r')" by blast
  from gen_skel_ok(1) [OF g rng_pos_ok [OF pos]] have "skel_ok Rule sk" by simp
  from instantiate_ok(1) [OF this] obtain rule where "instantiateRule sk = Inr rule" "inst_ok Rule rule"
    by blast
  with g show ?thesis by (simp add: randomRule_def)
qed

theorem randomRule_never_fails_witness:
  "\<exists>rule r'. randomRule (const_rng (1 / 2)) = Inr (rule, r') \<and> inst_ok Rule rule"
  by (rule randomRule_never_fails) (simp add: rng_pos_def const_rng_def)

end
