(* ===== verification/Spec2Isabelle.thy ===== *)
theory Spec2Isabelle
  imports Module Tags
begin

text \<open>
  \<^bold>\<open>A verification development of the Zendo prototype (src/js/zendo-prototype.js).\<close>

  \<^bold>\<open>The program.\<close> One JavaScript file implements a hidden-rule puzzle. A grammar table
  (\<open>ruleDict\<close>) lists weighted alternatives for five fragment categories; a recursive
  generator (\<open>randomRuleFragmentOfType\<close>) draws a rule skeleton from it, avoiding
  alternatives whose tags are already active; \<open>instantiateRule\<close> turns the skeleton into
  a description and a tree of bound \<open>match\<close> closures; \<open>randomGrid\<close> samples grids and
  \<open>generateExamples\<close> rejection-samples valid and invalid ones; \<open>checkConnected\<close> is a
  flood fill used by one alternative. Around this engine the page keeps global state
  (grid, rule, brush, mode, challenge) changed by button and canvas handlers.

  \<^bold>\<open>Theories and the code they model.\<close>
  \<^item> Prelude: \<open>Math.random()\<close> as an explicit source \<open>rng\<close> (a draw sequence and a
    position), \<open>Math.floor(Math.random() * n)\<close> as \<open>rand_below\<close>; JavaScript's
    \<open>every\<close>, \<open>some\<close>, \<open>||\<close>, \<open>&&\<close> over callbacks that may throw, with a
    \<open>TypeError\<close> as \<open>None\<close>; array element assignment \<open>a[i] = v\<close> with a number
    index (\<open>js_array_set\<close>: a negative index leaves the elements alone, an index past
    the end extends the array); shared list lemmas.
  \<^item> Grid: symbols and grids, \<open>indices\<close>, \<open>arrayCount\<close>, \<open>gridToString\<close>; loose and
    strict \<open>null\<close> tests; the decoder \<open>decode_grid\<close> used to state the rendering's round trip.
  \<^item> Connect: \<open>checkConnected\<close> and its closure \<open>_floodFill\<close> (as \<open>floodFill\<close> with
    fuel), against the reference \<open>connected_spec\<close> (reachability by neighbour steps).
  \<^item> Grammar: \<open>ruleDict\<close> as five lists of \<open>template\<close> records, with the table's shape.
  \<^item> Match: the \<open>match\<close> lambdas of the table (\<open>rawMatch\<close>) and their typing.
  \<^item> Generator: \<open>randomRuleFragmentOfType\<close> as the mutually recursive \<open>gen\<close> and
    \<open>gen_children\<close>, with the one-pass weighted selection \<open>pick_loop\<close>; tag sets are
    returned instead of mutated.
  \<^item> Instantiate: \<open>instantiateRule\<close> (\<open>instantiateRule\<close> and \<open>inst_children\<close>),
    \<open>String.prototype.replace\<close> with a string pattern (\<open>js_replace\<close>), the bound
    closure \<open>imatch\<close>, and \<open>randomRule\<close>.
  \<^item> Tags: generator properties over whole skeletons and generation on positive draws.
  \<^item> Sampler: \<open>randomGrid\<close> and \<open>generateExamples\<close> with its 500-attempt loop.
  \<^item> Module: the globals as the record \<open>mstate\<close>; \<open>resetModule\<close>, \<open>setModuleState\<close>,
    \<open>generateChallenge\<close>, \<open>setColor\<close>, \<open>setShape\<close>, \<open>erasePress\<close>, \<open>buttonPress\<close>,
    \<open>gridOnClick\<close> (its cell index an \<open>int\<close>, stored through \<open>js_array_set\<close>),
    \<open>setDisplayGrid\<close>, \<open>shuffleArray\<close>, and the texts, highlights and
    status light \<open>refreshDisplay\<close> writes; \<open>step\<close> dispatches a page event, \<open>run\<close>
    folds a sequence of them, \<open>boot\<close> is the \<open>resetModule()\<close> call at load.

  \<^bold>\<open>How effects are modelled.\<close> Every draw of \<open>Math.random()\<close> is threaded through the
  source in the code's order, so a theorem about a random operation quantifies over all
  sources whose draws lie in [0, 1) (\<open>rng_ok\<close>) or in (0, 1) (\<open>rng_pos\<close>). A thrown
  exception is a value: \<open>None\<close> for a \<open>TypeError\<close> inside evaluation, \<open>Inl\<close> of
  \<open>error\<close> for the generator's and instantiator's \<open>Error\<close>s, and in the module a
  handler returns the state reached at the throw with the exception \<open>exn\<close>. The
  generator's shared mutable tag \<open>Set\<close> becomes a returned set, the closure tree of an
  instantiated rule becomes the datatype \<open>inst\<close> evaluated by \<open>imatch\<close>.

  \<^bold>\<open>Loops, fuel and bounds.\<close> \<open>floodFill\<close> recurses through a shrinking set and takes
  fuel; \<open>checkConnected\<close> gives it one more unit than there are cells, which always
  suffices (\<open>floodFill_enough\<close>): each call either stops or removes a target. The
  generator terminates by the category \<open>rank\<close> (children rank strictly lower), the
  grid sampler by \<open>9 - i\<close>, the example loop by \<open>500 - attempts\<close>, the shuffle by
  \<open>length a - i\<close>. JavaScript numbers stay small here (cell indices, counts up to 500,
  weights up to 100), so \<open>nat\<close>, \<open>int\<close> and \<open>real\<close> model them without overflow.

  \<^bold>\<open>What is proved.\<close> The claims, by theory:
  \<^item> Module: every reachable state keeps the module invariant (9-cell grid, well-typed
    rule, challenge mode showing the current stage's grid); the solved state is reached
    only by a correct answer at the last stage; \<open>refreshDisplay\<close> never throws there
    and reveals the rule only when asked or finished; \<open>shuffleArray\<close> permutes; a click
    at any offset writes the brush into the cell under the pointer clamped to the canvas
    and nowhere else; entering challenge mode throws exactly when no rule was drawn.
  \<^item> Instantiate and Tags: a random rule throws only \<open>No valid choices\<close> and otherwise
    evaluates to a boolean on every 9-cell grid without throwing; with no draw equal to
    0 it never throws; chosen entries carry no active tag and have positive weight (so
    \<open>are identical\<close> never occurs); the adjacency predicate's child never carries a
    position tag; for every colour and shape the rule \<open>Every <colour> symbol is a
    <shape>\<close> is instantiated with that text and decides exactly that on every grid; an
    entry without a plural description gets plural text equal to its singular text.
    (Replacement texts are \<open>$\<close>-free, \<open>instantiate_dollar_free\<close>, which justifies
    modelling \<open>replace\<close> without its \<open>$\<close>-patterns.)
  \<^item> Sampler: \<open>randomGrid\<close> places exactly \<open>floor(7x) + 3\<close> well-formed symbols;
    \<open>generateExamples\<close> labels its results correctly and within the requested counts,
    and against a tautology spends all 500 attempts.
  \<^item> Connect: \<open>checkConnected\<close> equals \<open>connected_spec\<close>, its fill returns within the
    fuel.
  \<^item> Generator: when every draw is 0, generating a fragment of any category throws, whatever
    tags are active.
  \<^item> Grid: the debug rendering \<open>gridToString\<close> of a well-formed grid is 44 characters
    and can be read back (\<open>decode_grid\<close>), so it loses no information.

  \<^bold>\<open>Not modelled.\<close> The canvas drawing (\<open>drawSymbol\<close>, \<open>drawGridLines\<close>,
  \<open>strokeLine\<close>, the drawing half of \<open>refreshDisplay\<close>) and \<open>setCanvasScale\<close> only paint
  pixels; the \<open>console\<close> messages have no effect on state. A click offset is a real
  number: a \<open>NaN\<close> position (a canvas of width 0) is not represented. The page that wires buttons to
  handlers is outside src/ and is represented by the event type and \<open>step\<close>. The
  statistical properties of the random choices (the selection probability of an entry,
  uniformity of sampled grids) are not stated: the model fixes the draws and proves what
  the code computes from them.
\<close>

end
